theory Spec2Isabelle
  imports Main "HOL-Library.Sublist" "HOL-Library.AList"
begin

section \<open>Python values used by VCF\_functions.py\<close>

text \<open>
  The exceptions the modelled code can raise. Every function that can raise returns
  \<open>error + 'a\<close>, with \<open>Inl\<close> for the exception.
\<close>

datatype error = KeyError | ValueError | IndexError | TypeError | AttributeError | ReaderError

text \<open>
  A Python \<open>dict\<close> with string keys is an association list with distinct keys, in
  insertion order. \<open>d[k] = v\<close> is \<open>AList.update\<close>: an existing key keeps its
  position and takes the new value, a new key goes to the end. \<open>d[k]\<close> is
  \<open>map_of d k\<close>, with \<open>None\<close> for the KeyError.
\<close>

type_synonym dict = "(string \<times> string) list"

text \<open>\<open>dict(pairs)\<close>: the pairs are inserted from left to right.\<close>

definition py_dict :: "('k \<times> 'v) list \<Rightarrow> ('k \<times> 'v) list" where
  "py_dict ps = fold (\<lambda>(k, v) d. AList.update k v d) ps []"

text \<open>
  The values of the INFO dictionary: the raw string of a key, or, for the key CSQ after
  \<open>update_value\<close>, a list of dictionaries.
\<close>

datatype info_val = Str string | Subs "dict list"

type_synonym info_dict = "(string \<times> info_val) list"

text \<open>
  The cells of a data frame: a string read from the file, a number read from the file,
  NaN, the list of tokens of an INFO field, the INFO dictionary, a list of sub-records
  (MAF) and one sub-record (the column Variant\_INFO).
\<close>

datatype cell =
    CStr string
  | CNum int
  | CNaN
  | CToks "string list"
  | CInfo info_dict
  | CSubs "dict list"
  | CDict dict

section \<open>Python string operations\<close>

text \<open>\<open>s.startswith(p)\<close> is \<open>prefix p s\<close>, \<open>s.endswith(p)\<close> is \<open>suffix p s\<close>.\<close>

text \<open>\<open>sub in s\<close> for two strings: \<open>sub\<close> occurs in \<open>s\<close> as a contiguous block.\<close>

fun str_contains :: "string \<Rightarrow> string \<Rightarrow> bool" where
  "str_contains sub [] = (sub = [])"
| "str_contains sub (c # cs) = (prefix sub (c # cs) \<or> str_contains sub cs)"

text \<open>
  \<open>s.split(c)\<close> for a separator of one character: one more piece than there are
  occurrences of the separator, empty pieces kept.
\<close>

fun split_char :: "char \<Rightarrow> string \<Rightarrow> string list" where
  "split_char c [] = [[]]"
| "split_char c (x # xs) =
     (if x = c then [] # split_char c xs
      else (case split_char c xs of
              [] \<Rightarrow> [[x]]
            | p # ps \<Rightarrow> (x # p) # ps))"

text \<open>
  \<open>s.split(sep, 1)\<close> for a non-empty separator: \<open>None\<close> when \<open>sep\<close> does not occur
  (Python returns the one-element list \<open>[s]\<close>), else the text before and after the first
  occurrence (Python returns the two-element list).
\<close>

fun split_first :: "string \<Rightarrow> string \<Rightarrow> (string \<times> string) option" where
  "split_first sep [] = None"
| "split_first sep (c # cs) =
     (if prefix sep (c # cs) then Some ([], drop (length sep) (c # cs))
      else map_option (\<lambda>(a, b). (c # a, b)) (split_first sep cs))"

text \<open>
  \<open>s.replace(old, new)\<close> for a non-empty \<open>old\<close>: the occurrences are replaced from the
  left, without overlap. The counter is the number of characters of the current
  occurrence still to skip.
\<close>

fun replace_from :: "string \<Rightarrow> string \<Rightarrow> nat \<Rightarrow> string \<Rightarrow> string" where
  "replace_from old new k [] = []"
| "replace_from old new (Suc k) (c # cs) = replace_from old new k cs"
| "replace_from old new 0 (c # cs) =
     (if prefix old (c # cs) then new @ replace_from old new (length old - 1) cs
      else c # replace_from old new 0 cs)"

definition replace_str :: "string \<Rightarrow> string \<Rightarrow> string \<Rightarrow> string" where
  "replace_str old new s = replace_from old new 0 s"

section \<open>TranscriptResolver: find\_variants and find\_variants\_maf\<close>

text \<open>
  The loop of \<open>find_variants\<close>. \<open>variants\<close> is \<open>None\<close> while it still holds the
  initial empty string, and \<open>Some i\<close> once a sub-record has been assigned.
  \<open>i['Feature']\<close> raises KeyError when the sub-record has no such key.
\<close>

fun find_variants_loop :: "dict list \<Rightarrow> string list \<Rightarrow> dict option \<Rightarrow> error + dict option" where
  "find_variants_loop [] id_list variants = Inr variants"
| "find_variants_loop (i # rest) id_list variants =
     (case map_of i ''Feature'' of
        None \<Rightarrow> Inl KeyError
      | Some f \<Rightarrow> find_variants_loop rest id_list (if f \<in> set id_list then Some i else variants))"

text \<open>The final test \<open>len(variants) > 0\<close>, on the empty string or on a dictionary.\<close>

definition variants_or_nan :: "dict option \<Rightarrow> cell" where
  "variants_or_nan variants =
     (case variants of
        None \<Rightarrow> CNaN
      | Some d \<Rightarrow> (if length d > 0 then CDict d else CNaN))"

text \<open>
  \<open>dict_a['CSQ']\<close> raises KeyError without the key. Iterating over a string value
  gives its characters, and indexing a character with \<open>'Feature'\<close> raises TypeError;
  an empty string gives no iteration at all.
\<close>

definition find_variants :: "info_dict \<Rightarrow> string list \<Rightarrow> error + cell" where
  "find_variants dict_a id_list =
     (case map_of dict_a ''CSQ'' of
        None \<Rightarrow> Inl KeyError
      | Some (Str s) \<Rightarrow> (if s = [] then Inr CNaN else Inl TypeError)
      | Some (Subs csq) \<Rightarrow>
          (case find_variants_loop csq id_list None of
             Inl e \<Rightarrow> Inl e
           | Inr variants \<Rightarrow> Inr (variants_or_nan variants)))"

fun find_variants_maf_loop :: "dict list \<Rightarrow> string list \<Rightarrow> dict option \<Rightarrow> error + dict option" where
  "find_variants_maf_loop [] id_list variants = Inr variants"
| "find_variants_maf_loop (dic # rest) id_list variants =
     (case map_of dic ''Transcript_ID_all_effects'' of
        None \<Rightarrow> Inl KeyError
      | Some t \<Rightarrow> find_variants_maf_loop rest id_list (if t \<in> set id_list then Some dic else variants))"

definition find_variants_maf :: "dict list \<Rightarrow> string list \<Rightarrow> error + cell" where
  "find_variants_maf list_of_dicts id_list =
     (case find_variants_maf_loop list_of_dicts id_list None of
        Inl e \<Rightarrow> Inl e
      | Inr variants \<Rightarrow> Inr (variants_or_nan variants))"

section \<open>Running a function over a list, stopping at the first exception\<close>

definition bind_err :: "error + 'a \<Rightarrow> ('a \<Rightarrow> error + 'b) \<Rightarrow> error + 'b" where
  "bind_err m f = (case m of Inl e \<Rightarrow> Inl e | Inr x \<Rightarrow> f x)"

text \<open>A list comprehension or \<open>Series.apply\<close> whose body can raise: from left to right.\<close>

fun map_err :: "('a \<Rightarrow> error + 'b) \<Rightarrow> 'a list \<Rightarrow> error + 'b list" where
  "map_err f [] = Inr []"
| "map_err f (x # xs) =
     (case f x of
        Inl e \<Rightarrow> Inl e
      | Inr y \<Rightarrow> (case map_err f xs of Inl e \<Rightarrow> Inl e | Inr ys \<Rightarrow> Inr (y # ys)))"

text \<open>A list comprehension \<open>[i for i in xs if p(i)]\<close> whose condition can raise.\<close>

fun filter_err :: "('a \<Rightarrow> error + bool) \<Rightarrow> 'a list \<Rightarrow> error + 'a list" where
  "filter_err p [] = Inr []"
| "filter_err p (x # xs) =
     (case p x of
        Inl e \<Rightarrow> Inl e
      | Inr b \<Rightarrow> (case filter_err p xs of
                   Inl e \<Rightarrow> Inl e
                 | Inr ys \<Rightarrow> Inr (if b then x # ys else ys)))"

text \<open>\<open>xs[i]\<close> for a non-negative constant index.\<close>

definition py_index :: "'a list \<Rightarrow> nat \<Rightarrow> error + 'a" where
  "py_index xs i = (if i < length xs then Inr (xs ! i) else Inl IndexError)"

section \<open>Files and the external readers\<close>

text \<open>
  A file is its path and its stored content. The lines that iterating over an open text
  file gives keep their newline; the last line may lack one.
\<close>

record input_file =
  path :: string
  content :: string

fun py_lines :: "string \<Rightarrow> string list" where
  "py_lines [] = []"
| "py_lines (c # cs) =
     (if c = CHR ''\<newline>'' then [c] # py_lines cs
      else (case py_lines cs of
              [] \<Rightarrow> [[c]]
            | l # ls \<Rightarrow> (c # l) # ls))"

text \<open>
  A file opened in mode \<open>'rt'\<close> is read with universal newlines: a carriage return
  followed by a line feed, and a carriage return alone, reach the code as one line feed.
\<close>

fun universal_newlines :: "string \<Rightarrow> string" where
  "universal_newlines [] = []"
| "universal_newlines [c] = [if c = CHR 0x0D then CHR ''\<newline>'' else c]"
| "universal_newlines (c # d # ds) =
     (if c = CHR 0x0D then
        (if d = CHR ''\<newline>'' then CHR ''\<newline>'' # universal_newlines ds
         else CHR ''\<newline>'' # universal_newlines (d # ds))
      else c # universal_newlines (d # ds))"

text \<open>
  What the code takes from its libraries is a parameter of the model:
  \<^item> \<open>gunzip\<close>: the characters that \<open>gzip.open(file, mode = 'rt')\<close> decodes from the
    stored content, before the translation of newlines, or the exception it raises;
  \<^item> \<open>pd_text\<close>: the text that \<open>pd.read_csv\<close> decodes from the file. It is given
    the path, not an open file, and infers the compression from the suffix of the path by
    its own rule (\<open>.gz\<close>, \<open>.bz2\<close>, \<open>.zip\<close>, \<open>.xz\<close> and others), which is not the
    rule of \<open>fn_open\<close>;
  \<^item> \<open>read_table\<close>: the table that \<open>pd.read_csv(file, sep = '\t', skiprows = n)\<close>
    parses from that text;
  \<^item> \<open>read_table_comment\<close>: the table that \<open>pd.read_csv(file, sep = '\t',
    comment = '#', low_memory = False)\<close> parses from that text;
  \<^item> \<open>contains_nocase\<close>: the test that \<open>Series.str.contains(pat, case = False)\<close> makes
    on one string (a regular expression search that ignores case).
  A data frame is its column labels and its rows, each row a list of cells in the order of
  the columns.
\<close>

record frame =
  cols :: "string list"
  rws :: "cell list list"

record externals =
  gunzip :: "string \<Rightarrow> error + string"
  pd_text :: "input_file \<Rightarrow> error + string"
  read_table :: "string \<Rightarrow> nat \<Rightarrow> error + frame"
  read_table_comment :: "string \<Rightarrow> error + frame"
  contains_nocase :: "string \<Rightarrow> string \<Rightarrow> bool"

text \<open>
  \<open>fn_open = gzip.open if file.endswith('.gz') else open\<close>, then the text read in mode
  \<open>'rt'\<close>, and the lines that iterating over the open file gives.
\<close>

definition file_text :: "externals \<Rightarrow> input_file \<Rightarrow> error + string" where
  "file_text ext f =
     bind_err (if suffix ''.gz'' (path f) then gunzip ext (content f) else Inr (content f))
       (\<lambda>t. Inr (universal_newlines t))"

definition fn_open :: "externals \<Rightarrow> input_file \<Rightarrow> error + string list" where
  "fn_open ext f = bind_err (file_text ext f) (\<lambda>t. Inr (py_lines t))"

text \<open>\<open>pd.read_csv(file, ...)\<close>: the text is decoded by pandas, then parsed.\<close>

definition pd_read_csv :: "externals \<Rightarrow> input_file \<Rightarrow> nat \<Rightarrow> error + frame" where
  "pd_read_csv ext f skip_rows = bind_err (pd_text ext f) (\<lambda>t. read_table ext t skip_rows)"

definition pd_read_csv_comment :: "externals \<Rightarrow> input_file \<Rightarrow> error + frame" where
  "pd_read_csv_comment ext f = bind_err (pd_text ext f) (read_table_comment ext)"

section \<open>HeaderScanner: rows2skip, case\_id, csqkeys\<close>

fun rows2skip_loop :: "string list \<Rightarrow> nat \<Rightarrow> nat" where
  "rows2skip_loop [] skip_rows = skip_rows"
| "rows2skip_loop (line # rest) skip_rows =
     (if prefix ''##'' line then rows2skip_loop rest (skip_rows + 1) else skip_rows)"

definition rows2skip :: "externals \<Rightarrow> input_file \<Rightarrow> error + nat" where
  "rows2skip ext f = bind_err (fn_open ext f) (\<lambda>fh. Inr (rows2skip_loop fh 0))"

text \<open>
  The loop of \<open>case_id\<close> with its two variables. \<open>line.split(',')[1]\<close> raises
  IndexError when the line has no comma.
\<close>

fun case_id_loop :: "string list \<Rightarrow> string \<Rightarrow> string \<Rightarrow> error + (string \<times> string)" where
  "case_id_loop [] identifier sample_id = Inr (identifier, sample_id)"
| "case_id_loop (line # rest) identifier sample_id =
     (if prefix ''##'' line then
        (if prefix ''##INDIVIDUAL'' line then
           (case py_index (split_char CHR '','' line) 0 of
              Inl e \<Rightarrow> Inl e
            | Inr p \<Rightarrow>
                (let identifier' = replace_str ''##INDIVIDUAL=<NAME='' [] p in
                 if length identifier' > 0 \<and> length sample_id > 0
                 then Inr (identifier', sample_id)
                 else case_id_loop rest identifier' sample_id))
         else if prefix ''##SAMPLE=<ID=TUMOR'' line then
           (case py_index (split_char CHR '','' line) 1 of
              Inl e \<Rightarrow> Inl e
            | Inr p \<Rightarrow>
                (let sample_id' = replace_str ''NAME='' [] p in
                 if length identifier > 0 \<and> length sample_id' > 0
                 then Inr (identifier, sample_id')
                 else case_id_loop rest identifier sample_id'))
         else case_id_loop rest identifier sample_id)
      else Inr (identifier, sample_id))"

definition case_id :: "externals \<Rightarrow> input_file \<Rightarrow> error + (string \<times> string)" where
  "case_id ext f = bind_err (fn_open ext f) (\<lambda>fh. case_id_loop fh [] [])"

text \<open>
  The loop of \<open>csqkeys\<close>. Without a declaring line the function returns its initial
  value, the empty string, which as a sequence of keys is the empty list.
  \<open>line.split('Format: ', 1)[1]\<close> raises IndexError when the marker does not occur.
\<close>

definition format_marker :: string where
  "format_marker = ''Format: ''"

definition header_tail :: string where
  "header_tail = [CHR 0x22, CHR ''>'', CHR ''\<newline>'']"

fun csqkeys_loop :: "string list \<Rightarrow> error + string list" where
  "csqkeys_loop [] = Inr []"
| "csqkeys_loop (line # rest) =
     (if prefix ''##INFO=<ID=CSQ'' line then
        (case split_first format_marker line of
           None \<Rightarrow> Inl IndexError
         | Some (before, after) \<Rightarrow> Inr (split_char CHR ''|'' (replace_str header_tail [] after)))
      else csqkeys_loop rest)"

definition csqkeys :: "externals \<Rightarrow> input_file \<Rightarrow> error + string list" where
  "csqkeys ext f = bind_err (fn_open ext f) csqkeys_loop"

section \<open>EmbeddedFieldDecoder and VariantFilter\<close>

text \<open>\<open>dict(zip(csq_keys, i.split('|')))\<close>: \<open>zip\<close> stops at the shorter list.\<close>

definition decode_entry :: "string list \<Rightarrow> char \<Rightarrow> string \<Rightarrow> dict" where
  "decode_entry keys sep i = py_dict (zip keys (split_char sep i))"

text \<open>
  \<open>dict_a[key]\<close> raises KeyError without the key; a value that is already a list has no
  \<open>split\<close>.
\<close>

definition update_value :: "info_dict \<Rightarrow> string \<Rightarrow> string list \<Rightarrow> error + info_dict" where
  "update_value dict_a key csq_keys =
     (case map_of dict_a key of
        None \<Rightarrow> Inl KeyError
      | Some (Subs l) \<Rightarrow> Inl AttributeError
      | Some (Str s) \<Rightarrow>
          Inr (AList.update key
                 (Subs (map (decode_entry csq_keys CHR ''|'') (split_char CHR '','' s))) dict_a))"

text \<open>
  The condition of \<open>filter_variants\<close>; \<open>and\<close> evaluates its right operand only when
  the left one holds.
\<close>

definition keep_variant :: "string \<Rightarrow> string \<Rightarrow> dict \<Rightarrow> error + bool" where
  "keep_variant variant variant_class i =
     (case map_of i ''Consequence'' of
        None \<Rightarrow> Inl KeyError
      | Some c \<Rightarrow>
          (if str_contains variant c then
             (case map_of i ''VARIANT_CLASS'' of
                None \<Rightarrow> Inl KeyError
              | Some vc \<Rightarrow> Inr (str_contains variant_class vc))
           else Inr False))"

definition filter_variants :: "info_dict \<Rightarrow> string \<Rightarrow> string \<Rightarrow> error + info_dict" where
  "filter_variants dict_a variant variant_class =
     (case map_of dict_a ''CSQ'' of
        None \<Rightarrow> Inl KeyError
      | Some (Str s) \<Rightarrow>
          (if s = [] then Inr (AList.update ''CSQ'' (Subs []) dict_a) else Inl TypeError)
      | Some (Subs csq) \<Rightarrow>
          bind_err (filter_err (keep_variant variant variant_class) csq)
            (\<lambda>kept. Inr (AList.update ''CSQ'' (Subs kept) dict_a)))"

definition keep_variant_maf :: "string \<Rightarrow> dict \<Rightarrow> error + bool" where
  "keep_variant_maf variant dic =
     (case map_of dic ''Consequence_all_effects'' of
        None \<Rightarrow> Inl KeyError
      | Some c \<Rightarrow> Inr (str_contains variant c))"

definition filter_variants_maf :: "dict list \<Rightarrow> string \<Rightarrow> error + cell" where
  "filter_variants_maf list_of_dicts variant =
     bind_err (filter_err (keep_variant_maf variant) list_of_dicts)
       (\<lambda>updated_list_of_dicts.
          if length updated_list_of_dicts > 0 then Inr (CSubs updated_list_of_dicts)
          else Inr CNaN)"

section \<open>Data frame operations\<close>

text \<open>The position of the first column with a label.\<close>

fun col_pos :: "string \<Rightarrow> string list \<Rightarrow> nat option" where
  "col_pos c [] = None"
| "col_pos c (x # xs) = (if x = c then Some 0 else map_option Suc (col_pos c xs))"

definition cell_at :: "cell list \<Rightarrow> nat \<Rightarrow> cell" where
  "cell_at r i = (if i < length r then r ! i else CNaN)"

text \<open>\<open>df[c]\<close>: KeyError without the column.\<close>

definition get_col :: "frame \<Rightarrow> string \<Rightarrow> error + cell list" where
  "get_col df c =
     (case col_pos c (cols df) of
        None \<Rightarrow> Inl KeyError
      | Some i \<Rightarrow> Inr (map (\<lambda>r. cell_at r i) (rws df)))"

text \<open>\<open>df[c] = vals\<close>: the column is overwritten in place, or added on the right.\<close>

definition set_col :: "frame \<Rightarrow> string \<Rightarrow> cell list \<Rightarrow> frame" where
  "set_col df c vals =
     (case col_pos c (cols df) of
        Some i \<Rightarrow> df\<lparr>rws := map (\<lambda>(r, v). r[i := v]) (zip (rws df) vals)\<rparr>
      | None \<Rightarrow> df\<lparr>cols := cols df @ [c], rws := map (\<lambda>(r, v). r @ [v]) (zip (rws df) vals)\<rparr>)"

text \<open>\<open>df[dst] = df[src].apply(f)\<close>.\<close>

definition apply_col :: "frame \<Rightarrow> string \<Rightarrow> string \<Rightarrow> (cell \<Rightarrow> error + cell) \<Rightarrow> error + frame" where
  "apply_col df dst src f =
     bind_err (get_col df src) (\<lambda>series.
     bind_err (map_err f series) (\<lambda>vals. Inr (set_col df dst vals)))"

text \<open>\<open>df.dropna(subset = [c])\<close>: the rows whose cell in column \<open>c\<close> is NaN go.\<close>

definition dropna :: "frame \<Rightarrow> string \<Rightarrow> error + frame" where
  "dropna df c =
     (case col_pos c (cols df) of
        None \<Rightarrow> Inl KeyError
      | Some i \<Rightarrow> Inr (df\<lparr>rws := filter (\<lambda>r. cell_at r i \<noteq> CNaN) (rws df)\<rparr>))"

text \<open>\<open>df.drop([c], axis = 1)\<close>: every column labelled \<open>c\<close> goes.\<close>

definition drop_col :: "frame \<Rightarrow> string \<Rightarrow> error + frame" where
  "drop_col df c =
     (if c \<in> set (cols df)
      then Inr (df\<lparr>cols := filter (\<lambda>l. l \<noteq> c) (cols df),
                    rws := map (\<lambda>r. map snd (filter (\<lambda>(l, v). l \<noteq> c) (zip (cols df) r))) (rws df)\<rparr>)
      else Inl KeyError)"

text \<open>\<open>df.rename({old: new}, axis = 1)\<close>.\<close>

definition rename_col :: "frame \<Rightarrow> string \<Rightarrow> string \<Rightarrow> frame" where
  "rename_col df old new = df\<lparr>cols := map (\<lambda>l. if l = old then new else l) (cols df)\<rparr>"

text \<open>\<open>df.loc[mask]\<close> for a boolean mask with one entry per row.\<close>

definition select_rows :: "frame \<Rightarrow> bool list \<Rightarrow> frame" where
  "select_rows df keep = df\<lparr>rws := map fst (filter snd (zip (rws df) keep))\<rparr>"

text \<open>
  \<open>pd.json_normalize\<close> of a column of flat dictionaries: one column per key, in the
  order in which the keys first appear, NaN where a dictionary lacks the key. The column
  it is given holds dictionaries only, since the rows with NaN were dropped just before;
  the model raises TypeError on any other cell.
\<close>

definition json_columns :: "dict list \<Rightarrow> string list" where
  "json_columns ds = fold (\<lambda>d acc. acc @ filter (\<lambda>k. k \<notin> set acc) (map fst d)) ds []"

definition cell_dict :: "cell \<Rightarrow> error + dict" where
  "cell_dict x = (case x of CDict d \<Rightarrow> Inr d | _ \<Rightarrow> Inl TypeError)"

definition json_normalize :: "cell list \<Rightarrow> error + frame" where
  "json_normalize series =
     bind_err (map_err cell_dict series) (\<lambda>ds.
       Inr \<lparr>cols = json_columns ds,
            rws = map (\<lambda>d. map (\<lambda>k. case map_of d k of None \<Rightarrow> CNaN | Some v \<Rightarrow> CStr v)
                               (json_columns ds)) ds\<rparr>)"

text \<open>
  \<open>pd.concat([a, b], axis = 1)\<close> of two frames with the same number of rows, both
  indexed from 0: the rows are put side by side.
\<close>

definition concat_cols :: "frame \<Rightarrow> frame \<Rightarrow> frame" where
  "concat_cols a b = \<lparr>cols = cols a @ cols b, rws = map (\<lambda>(r, q). r @ q) (zip (rws a) (rws b))\<rparr>"

section \<open>The functions applied to the cells\<close>

text \<open>
  Each step of a pipeline is applied to the cells the step before produced. A cell of
  another kind cannot reach it; the model raises TypeError there.
\<close>

definition on_info :: "(info_dict \<Rightarrow> error + cell) \<Rightarrow> cell \<Rightarrow> error + cell" where
  "on_info f x = (case x of CInfo d \<Rightarrow> f d | _ \<Rightarrow> Inl TypeError)"

definition on_subs :: "(dict list \<Rightarrow> error + cell) \<Rightarrow> cell \<Rightarrow> error + cell" where
  "on_subs f x = (case x of CSubs l \<Rightarrow> f l | _ \<Rightarrow> Inl TypeError)"

text \<open>
  \<open>lambda x: [i + '=nan' if '=' not in i else i for i in x.split(';')]\<close>. A cell that is
  not a string (NaN or a number, from the reader) has no \<open>split\<close>.
\<close>

definition add_nan :: "string \<Rightarrow> string" where
  "add_nan i = (if CHR ''='' \<notin> set i then i @ ''=nan'' else i)"

definition info_add_nan :: "cell \<Rightarrow> error + cell" where
  "info_add_nan x =
     (case x of
        CStr s \<Rightarrow> Inr (CToks (map add_nan (split_char CHR '';'' s)))
      | _ \<Rightarrow> Inl AttributeError)"

text \<open>
  \<open>lambda x: dict(item.split("=") for item in x)\<close>: \<open>dict\<close> raises ValueError on an
  element that is not a pair.
\<close>

definition item_pair :: "string \<Rightarrow> error + (string \<times> info_val)" where
  "item_pair item =
     (case split_char CHR ''='' item of
        [k, v] \<Rightarrow> Inr (k, Str v)
      | _ \<Rightarrow> Inl ValueError)"

definition info_to_dict :: "cell \<Rightarrow> error + cell" where
  "info_to_dict x =
     (case x of
        CToks items \<Rightarrow> bind_err (map_err item_pair items) (\<lambda>ps. Inr (CInfo (py_dict ps)))
      | _ \<Rightarrow> Inl TypeError)"

text \<open>The fixed keys of the MAF column \<open>all_effects\<close>.\<close>

definition maf_keys :: "string list" where
  "maf_keys =
     [''Symbol_all_effects'', ''Consequence_all_effects'', ''HGVSp_Short_all_effects'',
      ''Transcript_ID_all_effects'', ''RefSeq_all_effects'', ''HGVSc_all_effects'',
      ''Impact_all_effects'', ''Canonical_all_effects'', ''Sift_all_effects'',
      ''PolyPhen_all_effects'', ''Strand_all_effects'']"

text \<open>\<open>lambda x: [dict(zip(keys, i.split(','))) for i in x.split(';')]\<close>.\<close>

definition all_effects_decode :: "cell \<Rightarrow> error + cell" where
  "all_effects_decode x =
     (case x of
        CStr s \<Rightarrow> Inr (CSubs (map (decode_entry maf_keys CHR '','') (split_char CHR '';'' s)))
      | _ \<Rightarrow> Inl AttributeError)"

section \<open>The pipelines read\_process\_vcf and read\_process\_maf\<close>

text \<open>
  \<open>df.loc[(df['FILTER'] == 'PASS') & (df.INFO.str.contains(variant, case = False))]\<close>.
  \<open>df.INFO\<close> raises AttributeError without the column. In a column that holds strings,
  \<open>.str.contains\<close> gives NaN for a cell that is not a string, and the mask takes NaN as
  false: the row is left out, without an exception. A column with rows and without any
  string is a column of numbers, on which \<open>.str\<close> raises AttributeError.
\<close>

definition is_str :: "cell \<Rightarrow> bool" where
  "is_str x = (case x of CStr s \<Rightarrow> True | _ \<Rightarrow> False)"

definition info_contains :: "externals \<Rightarrow> string \<Rightarrow> cell \<Rightarrow> bool" where
  "info_contains ext variant x =
     (case x of CStr s \<Rightarrow> contains_nocase ext variant s | _ \<Rightarrow> False)"

definition info_str_contains :: "externals \<Rightarrow> string \<Rightarrow> cell list \<Rightarrow> error + bool list" where
  "info_str_contains ext variant info =
     (if info \<noteq> [] \<and> \<not> list_ex is_str info then Inl AttributeError
      else Inr (map (info_contains ext variant) info))"

definition vcf_table_filter :: "externals \<Rightarrow> frame \<Rightarrow> string \<Rightarrow> error + frame" where
  "vcf_table_filter ext df variant =
     bind_err (get_col df ''FILTER'') (\<lambda>flt.
     bind_err (case get_col df ''INFO'' of Inl e \<Rightarrow> Inl AttributeError | Inr s \<Rightarrow> Inr s) (\<lambda>info.
     bind_err (info_str_contains ext variant info) (\<lambda>has_variant.
       Inr (select_rows df (map (\<lambda>(a, b). a = CStr ''PASS'' \<and> b) (zip flt has_variant))))))"

text \<open>Lines 278 to 295: the table with its INFO column decoded and filtered.\<close>

definition vcf_filtered :: "externals \<Rightarrow> input_file \<Rightarrow> string \<Rightarrow> string \<Rightarrow> error + frame" where
  "vcf_filtered ext f variant variant_class =
     bind_err (rows2skip ext f) (\<lambda>skip_rows.
     bind_err (csqkeys ext f) (\<lambda>csq_keys.
     bind_err (pd_read_csv ext f skip_rows) (\<lambda>df.
     bind_err (vcf_table_filter ext (rename_col df ''#CHROM'' ''CHROM'') variant) (\<lambda>df.
     bind_err (apply_col df ''INFO'' ''INFO'' info_add_nan) (\<lambda>df.
     bind_err (apply_col df ''INFO'' ''INFO'' info_to_dict) (\<lambda>df.
     bind_err (apply_col df ''INFO'' ''INFO''
                 (on_info (\<lambda>x. bind_err (update_value x ''CSQ'' csq_keys) (\<lambda>d. Inr (CInfo d))))) (\<lambda>df.
     apply_col df ''INFO'' ''INFO''
       (on_info (\<lambda>x. bind_err (filter_variants x variant variant_class) (\<lambda>d. Inr (CInfo d)))))))))))"

text \<open>
  The extension, the same in both pipelines: the column Variant\_INFO is computed from
  the embedded column, the rows where it is NaN are dropped, and the remaining
  sub-records become columns on the right in place of Variant\_INFO.
\<close>

definition extend_table :: "frame \<Rightarrow> string \<Rightarrow> (cell \<Rightarrow> error + cell) \<Rightarrow> error + frame" where
  "extend_table df src resolver =
     bind_err (apply_col df ''Variant_INFO'' src resolver) (\<lambda>df.
     bind_err (dropna df ''Variant_INFO'') (\<lambda>df.
     bind_err (get_col df ''Variant_INFO'') (\<lambda>series.
     bind_err (json_normalize series) (\<lambda>df_variant.
     bind_err (drop_col df ''Variant_INFO'') (\<lambda>d.
       Inr (concat_cols d df_variant))))))"

text \<open>
  The result is the table, with the pair of \<open>case_id\<close> when \<open>return_case_id\<close> is
  set; \<open>case_id\<close> is then called last.
\<close>

definition with_case_id ::
  "externals \<Rightarrow> input_file \<Rightarrow> bool \<Rightarrow> frame \<Rightarrow> error + (frame \<times> (string \<times> string) option)" where
  "with_case_id ext f return_case_id df =
     (if return_case_id then bind_err (case_id ext f) (\<lambda>ids. Inr (df, Some ids))
      else Inr (df, None))"

definition read_process_vcf ::
  "externals \<Rightarrow> input_file \<Rightarrow> string \<Rightarrow> string \<Rightarrow> string list \<Rightarrow> bool
     \<Rightarrow> error + (frame \<times> (string \<times> string) option)" where
  "read_process_vcf ext f variant variant_class id_list return_case_id =
     bind_err (vcf_filtered ext f variant variant_class) (\<lambda>df.
       if length id_list > 0 then
         bind_err (extend_table df ''INFO'' (on_info (\<lambda>x. find_variants x id_list)))
           (\<lambda>df_extended. with_case_id ext f return_case_id df_extended)
       else with_case_id ext f return_case_id df)"

text \<open>Lines 357 to 376: the table with \<open>all_effects\<close> decoded, filtered, NaN rows dropped.\<close>

definition maf_filtered :: "externals \<Rightarrow> input_file \<Rightarrow> string \<Rightarrow> error + frame" where
  "maf_filtered ext f consequence =
     bind_err (pd_read_csv_comment ext f) (\<lambda>df.
     bind_err (apply_col df ''all_effects'' ''all_effects'' all_effects_decode) (\<lambda>df.
     bind_err (apply_col df ''all_effects'' ''all_effects''
                 (on_subs (\<lambda>x. filter_variants_maf x consequence))) (\<lambda>df.
     dropna df ''all_effects'')))"

definition read_process_maf ::
  "externals \<Rightarrow> input_file \<Rightarrow> string \<Rightarrow> string \<Rightarrow> string \<Rightarrow> string list \<Rightarrow> error + frame" where
  "read_process_maf ext f variant consequence variant_class id_list =
     bind_err (maf_filtered ext f consequence) (\<lambda>df.
       if length id_list > 0 then
         extend_table df ''all_effects'' (on_subs (\<lambda>x. find_variants_maf x id_list))
       else Inr df)"

section \<open>Notions used in the statements\<close>

text \<open>
  A sub-record has a key; its value under the key is a member of the identifier list;
  the last sub-record of a list with that property, NaN when there is none.
\<close>

definition id_member :: "string \<Rightarrow> string list \<Rightarrow> dict \<Rightarrow> bool" where
  "id_member key id_list d = (case map_of d key of None \<Rightarrow> False | Some t \<Rightarrow> t \<in> set id_list)"

definition last_match :: "string \<Rightarrow> string list \<Rightarrow> dict list \<Rightarrow> cell" where
  "last_match key id_list subs =
     (case filter (id_member key id_list) subs of [] \<Rightarrow> CNaN | m # ms \<Rightarrow> CDict (last (m # ms)))"

definition has_key :: "string \<Rightarrow> dict \<Rightarrow> bool" where
  "has_key key d = (map_of d key \<noteq> None)"

text \<open>
  The key of an INFO token is its text before the first \<open>=\<close>. The decode of one INFO
  field is the three functions of lines 286, 289 and 292 applied in turn.
\<close>

definition token_key :: "string \<Rightarrow> string" where
  "token_key tok = takeWhile (\<lambda>c. c \<noteq> CHR ''='') tok"

definition vcf_field_decode :: "string list \<Rightarrow> string \<Rightarrow> error + cell" where
  "vcf_field_decode csq_keys s =
     bind_err (bind_err (info_add_nan (CStr s)) info_to_dict)
       (on_info (\<lambda>x. bind_err (update_value x ''CSQ'' csq_keys) (\<lambda>d. Inr (CInfo d))))"

text \<open>
  An instance of the external readers for the examples: \<open>gunzip\<close> gives a header of
  three lines, \<open>read_table\<close> a VCF table of three rows and \<open>read_table_comment\<close> a MAF
  table of two rows; the case-insensitive search is approximated by \<open>str_contains\<close>.
  \<open>pd_text\<close> follows the suffix rule of pandas on the paths of the examples: a path
  ending in \<open>.gz\<close> is read through gzip, a path ending in \<open>.bz2\<close> through bzip2,
  which fails since no content of the examples is a bzip2 stream, and any other path is
  read as it is.
\<close>

definition sample_header :: string where
  "sample_header =
     ''##INFO=<ID=CSQ,Description='' @ [CHR 0x22]
       @ ''x. Format: Allele|Consequence|VARIANT_CLASS|Feature'' @ header_tail
     @ ''##SAMPLE=<ID=TUMOR,NAME=s1,x'' @ [CHR ''\<newline>'']
     @ ''##INDIVIDUAL=<NAME=c1,x'' @ [CHR ''\<newline>'']
     @ ''#CHROM''"

definition sample_ext :: externals where
  "sample_ext =
     \<lparr>gunzip = (\<lambda>b. if b = ''compressed'' then Inr sample_header else Inl ReaderError),
      pd_text = (\<lambda>f.
        if suffix ''.gz'' (path f) then
          (if content f = ''compressed'' then Inr sample_header else Inl ReaderError)
        else if suffix ''.bz2'' (path f) then Inl ReaderError
        else Inr (content f)),
      read_table = (\<lambda>t n.
        if t = sample_header \<and> n = 3 then
          Inr \<lparr>cols = [''#CHROM'', ''FILTER'', ''INFO''],
               rws = [[CNum 1, CStr ''PASS'',
                       CStr ''DP=3;IN_PON;CSQ=A|missense_variant|SNP|T1,A|missense_variant|SNP|T2|zz''],
                      [CNum 1, CStr ''PASS'',
                       CStr ''DP=3;CSQ=A|missense_variant|INS|T9,A|synonymous_variant|SNP|T1''],
                      [CNum 2, CStr ''q10'', CStr ''CSQ=A|missense_variant|SNP|T1'']]\<rparr>
        else Inl ReaderError),
      read_table_comment = (\<lambda>t.
        Inr \<lparr>cols = [''Hugo_Symbol'', ''all_effects''],
             rws = [[CStr ''G1'',
                     CStr ''S1,missense_variant,p.A,T1;S2,synonymous_variant,p.B,T2;S3,missense_variant,p.C,T3''],
                    [CStr ''G2'', CStr ''S1,synonymous_variant,p.A,T1'']]\<rparr>),
      contains_nocase = str_contains\<rparr>"

definition sample_gz :: input_file where
  "sample_gz = \<lparr>path = ''case1.vep.vcf.gz'', content = ''compressed''\<rparr>"

definition sample_plain :: input_file where
  "sample_plain = \<lparr>path = ''case1.vep.vcf'', content = sample_header\<rparr>"

definition sample_bz2_name :: input_file where
  "sample_bz2_name = \<lparr>path = ''case1.vep.vcf.bz2'', content = sample_header\<rparr>"

text \<open>The keys of a format declaration, written with the separator between them.\<close>

fun join_with :: "char \<Rightarrow> string list \<Rightarrow> string" where
  "join_with c [] = []"
| "join_with c [k] = k"
| "join_with c (k # k' # ks) = k @ c # join_with c (k' # ks)"

text \<open>
  A frame is well formed when every row has one cell per column. One step of a pipeline
  on the row \<open>r\<close>: the function succeeds on the cell at position \<open>i\<close> and the row
  \<open>r'\<close> is \<open>r\<close> with that cell replaced by the result. The functions that the VCF
  pipeline (lines 286 to 295) and the MAF pipeline (lines 370 to 373) apply in turn to
  the embedded cell of a row.
\<close>

definition wf_frame :: "frame \<Rightarrow> bool" where
  "wf_frame df = list_all (\<lambda>r. length r = length (cols df)) (rws df)"

definition cell_step :: "nat \<Rightarrow> (cell \<Rightarrow> error + cell) \<Rightarrow> cell list \<Rightarrow> cell list \<Rightarrow> bool" where
  "cell_step i f r r' =
     (i < length r \<and> (case f (cell_at r i) of Inl e \<Rightarrow> False | Inr y \<Rightarrow> r' = r[i := y]))"

definition vcf_cell :: "string list \<Rightarrow> string \<Rightarrow> string \<Rightarrow> cell \<Rightarrow> error + cell" where
  "vcf_cell csq_keys variant variant_class x =
     bind_err (bind_err (bind_err (info_add_nan x) info_to_dict)
       (on_info (\<lambda>x. bind_err (update_value x ''CSQ'' csq_keys) (\<lambda>d. Inr (CInfo d)))))
       (on_info (\<lambda>x. bind_err (filter_variants x variant variant_class) (\<lambda>d. Inr (CInfo d))))"

definition maf_cell :: "string \<Rightarrow> cell \<Rightarrow> error + cell" where
  "maf_cell consequence x =
     bind_err (all_effects_decode x) (on_subs (\<lambda>x. filter_variants_maf x consequence))"


text \<open>The tables that the sample readers return, and the results of the pipelines on them.\<close>

definition sample_vcf_table :: frame where
  "sample_vcf_table =
     \<lparr>cols = [''#CHROM'', ''FILTER'', ''INFO''],
      rws = [[CNum 1, CStr ''PASS'',
              CStr ''DP=3;IN_PON;CSQ=A|missense_variant|SNP|T1,A|missense_variant|SNP|T2|zz''],
             [CNum 1, CStr ''PASS'',
              CStr ''DP=3;CSQ=A|missense_variant|INS|T9,A|synonymous_variant|SNP|T1''],
             [CNum 2, CStr ''q10'', CStr ''CSQ=A|missense_variant|SNP|T1'']]\<rparr>"

definition sample_maf_table :: frame where
  "sample_maf_table =
     \<lparr>cols = [''Hugo_Symbol'', ''all_effects''],
      rws = [[CStr ''G1'',
              CStr ''S1,missense_variant,p.A,T1;S2,synonymous_variant,p.B,T2;S3,missense_variant,p.C,T3''],
             [CStr ''G2'', CStr ''S1,synonymous_variant,p.A,T1'']]\<rparr>"

definition sample_vcf_passthrough :: frame where
  "sample_vcf_passthrough =
     \<lparr>cols = [''CHROM'', ''FILTER'', ''INFO''],
      rws = [[CNum 1, CStr ''PASS'',
              CInfo [(''DP'', Str ''3''), (''IN_PON'', Str ''nan''),
                     (''CSQ'', Subs [[(''Allele'', ''A''), (''Consequence'', ''missense_variant''),
                                      (''VARIANT_CLASS'', ''SNP''), (''Feature'', ''T1'')],
                                     [(''Allele'', ''A''), (''Consequence'', ''missense_variant''),
                                      (''VARIANT_CLASS'', ''SNP''), (''Feature'', ''T2'')]])]],
             [CNum 1, CStr ''PASS'',
              CInfo [(''DP'', Str ''3''), (''CSQ'', Subs [])]]]\<rparr>"

definition sample_maf_passthrough :: frame where
  "sample_maf_passthrough =
     \<lparr>cols = [''Hugo_Symbol'', ''all_effects''],
      rws = [[CStr ''G1'',
              CSubs [[(''Symbol_all_effects'', ''S1''),
                      (''Consequence_all_effects'', ''missense_variant''),
                      (''HGVSp_Short_all_effects'', ''p.A''),
                      (''Transcript_ID_all_effects'', ''T1'')],
                     [(''Symbol_all_effects'', ''S3''),
                      (''Consequence_all_effects'', ''missense_variant''),
                      (''HGVSp_Short_all_effects'', ''p.C''),
                      (''Transcript_ID_all_effects'', ''T3'')]]]]\<rparr>"

text \<open>
  The row with its cell at position \<open>i\<close> replaced by the result of the function on
  that cell. The test of the table filter of line 283 on one row, with the positions of
  the columns FILTER and INFO.
\<close>

definition decoded_row :: "nat \<Rightarrow> (cell \<Rightarrow> error + cell) \<Rightarrow> cell list \<Rightarrow> cell list" where
  "decoded_row i f r = (case f (cell_at r i) of Inl e \<Rightarrow> r | Inr y \<Rightarrow> r[i := y])"

definition keep_row :: "externals \<Rightarrow> string \<Rightarrow> nat \<Rightarrow> nat \<Rightarrow> cell list \<Rightarrow> bool" where
  "keep_row ext variant fi i r =
     (cell_at r fi = CStr ''PASS'' \<and> info_contains ext variant (cell_at r i))"

definition cell_ok :: "nat \<Rightarrow> (cell \<Rightarrow> error + cell) \<Rightarrow> cell list \<Rightarrow> bool" where
  "cell_ok i f r = (case f (cell_at r i) of Inl e \<Rightarrow> False | Inr y \<Rightarrow> True)"

section \<open>C1: the resolver returns the last matching sub-record\<close>

lemma find_variants_loop_all:
  "list_all (has_key ''Feature'') csq \<Longrightarrow>
   find_variants_loop csq ids v =
     Inr (case filter (id_member ''Feature'' ids) csq of [] \<Rightarrow> v | m # ms \<Rightarrow> Some (last (m # ms)))"
  by (induction csq arbitrary: v) (auto simp: has_key_def id_member_def split: list.splits)

lemma find_variants_loop_missing:
  "\<not> list_all (has_key ''Feature'') csq \<Longrightarrow> find_variants_loop csq ids v = Inl KeyError"
  by (induction csq arbitrary: v) (auto simp: has_key_def split: option.splits)

lemma find_variants_maf_loop_all:
  "list_all (has_key ''Transcript_ID_all_effects'') subs \<Longrightarrow>
   find_variants_maf_loop subs ids v =
     Inr (case filter (id_member ''Transcript_ID_all_effects'' ids) subs of
            [] \<Rightarrow> v | m # ms \<Rightarrow> Some (last (m # ms)))"
  by (induction subs arbitrary: v) (auto simp: has_key_def id_member_def split: list.splits)

lemma find_variants_maf_loop_missing:
  "\<not> list_all (has_key ''Transcript_ID_all_effects'') subs \<Longrightarrow>
   find_variants_maf_loop subs ids v = Inl KeyError"
  by (induction subs arbitrary: v) (auto simp: has_key_def split: option.splits)

lemma id_member_nonempty: "id_member key ids d \<Longrightarrow> length d > 0"
  by (auto simp: id_member_def split: option.splits)

lemma variants_or_nan_last:
  "variants_or_nan (case filter (id_member key ids) subs of [] \<Rightarrow> None | m # ms \<Rightarrow> Some (last (m # ms)))
     = last_match key ids subs"
proof (cases "filter (id_member key ids) subs")
  case Nil
  then show ?thesis by (simp add: variants_or_nan_def last_match_def)
next
  case (Cons m ms)
  then have "last (m # ms) \<in> set (filter (id_member key ids) subs)"
    by (metis last_in_set list.distinct(1))
  then have "length (last (m # ms)) > 0" by (auto dest: id_member_nonempty)
  with Cons show ?thesis by (simp add: variants_or_nan_def last_match_def)
qed

text \<open>
  Claim C1, as amended. Let the sub-records be given (for \<open>find_variants\<close> under the key
  CSQ of the INFO dictionary, for \<open>find_variants_maf\<close> as the list itself). If every
  sub-record has the transcript-identifier key (Feature for VCF,
  Transcript\_ID\_all\_effects for MAF), the resolver returns the last sub-record, in
  iteration order, whose identifier is a member of the identifier list, and NaN when
  there is none or the list is empty. If some sub-record lacks the key, the lookup raises
  KeyError.
\<close>

theorem resolver_last_wins:
  "(map_of dict_a ''CSQ'' = Some (Subs csq) \<longrightarrow>
      find_variants dict_a id_list =
        (if list_all (has_key ''Feature'') csq
         then Inr (last_match ''Feature'' id_list csq) else Inl KeyError))
   \<and> find_variants_maf subs id_list =
        (if list_all (has_key ''Transcript_ID_all_effects'') subs
         then Inr (last_match ''Transcript_ID_all_effects'' id_list subs) else Inl KeyError)"
proof (intro conjI impI)
  assume "map_of dict_a ''CSQ'' = Some (Subs csq)"
  then show "find_variants dict_a id_list =
        (if list_all (has_key ''Feature'') csq
         then Inr (last_match ''Feature'' id_list csq) else Inl KeyError)"
    using variants_or_nan_last[of "''Feature''" id_list csq]
    by (simp add: find_variants_def find_variants_loop_all find_variants_loop_missing)
next
  show "find_variants_maf subs id_list =
        (if list_all (has_key ''Transcript_ID_all_effects'') subs
         then Inr (last_match ''Transcript_ID_all_effects'' id_list subs) else Inl KeyError)"
    using variants_or_nan_last[of "''Transcript_ID_all_effects''" id_list subs]
    by (simp add: find_variants_maf_def find_variants_maf_loop_all find_variants_maf_loop_missing)
qed

text \<open>
  The sub-records of the specification's example, told apart by a second field: the
  third one is returned, not the first.
\<close>

theorem resolver_last_wins_witness:
  "find_variants
     [(''CSQ'', Subs [[(''Feature'', ''T1''), (''SYMBOL'', ''first'')],
                      [(''Feature'', ''T2''), (''SYMBOL'', ''second'')],
                      [(''Feature'', ''T1''), (''SYMBOL'', ''third'')]])] [''T1'']
     = Inr (CDict [(''Feature'', ''T1''), (''SYMBOL'', ''third'')])
   \<and> find_variants_maf
     [[(''Transcript_ID_all_effects'', ''T1''), (''Symbol_all_effects'', ''first'')],
      [(''Transcript_ID_all_effects'', ''T2''), (''Symbol_all_effects'', ''second'')],
      [(''Transcript_ID_all_effects'', ''T1''), (''Symbol_all_effects'', ''third'')]] [''T1'']
     = Inr (CDict [(''Transcript_ID_all_effects'', ''T1''), (''Symbol_all_effects'', ''third'')])
   \<and> find_variants [(''CSQ'', Subs [])] [''T1''] = Inr CNaN"
  using resolver_last_wins
          [of "[(''CSQ'', Subs [[(''Feature'', ''T1''), (''SYMBOL'', ''first'')],
                      [(''Feature'', ''T2''), (''SYMBOL'', ''second'')],
                      [(''Feature'', ''T1''), (''SYMBOL'', ''third'')]])]"
              "[[(''Feature'', ''T1''), (''SYMBOL'', ''first'')],
                      [(''Feature'', ''T2''), (''SYMBOL'', ''second'')],
                      [(''Feature'', ''T1''), (''SYMBOL'', ''third'')]]"
              "[''T1'']"
              "[[(''Transcript_ID_all_effects'', ''T1''), (''Symbol_all_effects'', ''first'')],
      [(''Transcript_ID_all_effects'', ''T2''), (''Symbol_all_effects'', ''second'')],
      [(''Transcript_ID_all_effects'', ''T1''), (''Symbol_all_effects'', ''third'')]]"]
        resolver_last_wins [of "[(''CSQ'', Subs [])]" "[]" "[''T1'']" "[]"]
  by (simp add: last_match_def id_member_def has_key_def)

text \<open>
  The claim as stated fails on a sub-record without the key: the MAF entry
  \<open>S1,missense_variant\<close> decodes to a sub-record with two keys, passes the filter, and
  the resolver raises KeyError instead of returning NaN.
\<close>

theorem resolver_missing_key_counterexample:
  "filter_variants_maf
     (map (decode_entry maf_keys CHR '','') (split_char CHR '';'' ''S1,missense_variant''))
     ''missense_variant''
     = Inr (CSubs [[(''Symbol_all_effects'', ''S1''),
                    (''Consequence_all_effects'', ''missense_variant'')]])
   \<and> find_variants_maf
       [[(''Symbol_all_effects'', ''S1''), (''Consequence_all_effects'', ''missense_variant'')]]
       [''T1'']
     = Inl KeyError"
  by (simp add: filter_variants_maf_def decode_entry_def maf_keys_def py_dict_def
        keep_variant_maf_def bind_err_def find_variants_maf_def)

section \<open>C2: decoding a sub-entry against the schema\<close>

lemma update_fresh: "k \<notin> fst ` set al \<Longrightarrow> AList.update k v al = al @ [(k, v)]"
  by (induction al) auto

lemma fold_update_keys:
  "fst ` set (fold (\<lambda>(k, v) d. AList.update k v d) ps acc) = fst ` set acc \<union> fst ` set ps"
proof (induction ps arbitrary: acc)
  case Nil
  then show ?case by simp
next
  case (Cons p ps)
  obtain k v where p: "p = (k, v)" by (cases p)
  have "fst ` set (fold (\<lambda>(k, v) d. AList.update k v d) ps (AList.update k v acc))
          = fst ` set (AList.update k v acc) \<union> fst ` set ps"
    by (rule Cons.IH)
  also have "\<dots> = ({k} \<union> fst ` set acc) \<union> fst ` set ps"
    by (simp only: AList.dom_update)
  finally show ?case using p by auto
qed

lemma fold_update_distinct:
  "distinct (map fst (acc @ ps)) \<Longrightarrow> fold (\<lambda>(k, v) d. AList.update k v d) ps acc = acc @ ps"
proof (induction ps arbitrary: acc)
  case Nil
  then show ?case by simp
next
  case (Cons p ps)
  obtain k v where p: "p = (k, v)" by (cases p)
  from Cons.prems p have fresh: "k \<notin> fst ` set acc" by auto
  from Cons.prems p have "distinct (map fst ((acc @ [(k, v)]) @ ps))" by simp
  then have "fold (\<lambda>(k, v) d. AList.update k v d) ps (acc @ [(k, v)]) = (acc @ [(k, v)]) @ ps"
    by (rule Cons.IH)
  with fresh p show ?case by (simp add: update_fresh)
qed

lemma py_dict_keys: "fst ` set (py_dict ps) = fst ` set ps"
  by (simp add: py_dict_def fold_update_keys)

lemma py_dict_distinct: "distinct (map fst ps) \<Longrightarrow> py_dict ps = ps"
  using fold_update_distinct[of "[]" ps] by (simp add: py_dict_def)

lemma zip_keys: "fst ` set (zip ks vs) = set (take (length vs) ks)"
proof -
  have "fst ` set (zip ks vs) = set (map fst (zip ks vs))" by simp
  also have "\<dots> = set (take (min (length ks) (length vs)) ks)" by (simp only: map_fst_zip_take)
  also have "\<dots> = set (take (length vs) ks)" by (simp add: min_def)
  finally show ?thesis .
qed

text \<open>
  Claim C2, as amended. For every schema and every sub-entry, the decoded sub-record has
  as keys exactly the first schema keys, as many as the sub-entry has values: the values
  beyond the schema length are dropped, and the schema keys beyond the number of values
  are left out of the sub-record (no sentinel value is stored for them). For a schema
  without repeated keys the sub-record is the positional pairing of keys and values.
\<close>

theorem decode_entry_truncates:
  "fst ` set (decode_entry keys sep i) = set (take (length (split_char sep i)) keys)
   \<and> (distinct keys \<longrightarrow>
        decode_entry keys sep i = zip keys (split_char sep i)
        \<and> (\<forall>n. length (split_char sep i) \<le> n \<and> n < length keys \<longrightarrow>
               map_of (decode_entry keys sep i) (keys ! n) = None))"
proof (intro conjI impI allI)
  show keys: "fst ` set (decode_entry keys sep i) = set (take (length (split_char sep i)) keys)"
    by (simp add: decode_entry_def py_dict_keys zip_keys)
  assume d: "distinct keys"
  then have "distinct (map fst (zip keys (split_char sep i)))"
    by (simp add: map_fst_zip_take)
  then show "decode_entry keys sep i = zip keys (split_char sep i)"
    by (simp add: decode_entry_def py_dict_distinct)
  fix n
  assume n: "length (split_char sep i) \<le> n \<and> n < length keys"
  have "keys ! n \<notin> set (take (length (split_char sep i)) keys)"
  proof
    assume "keys ! n \<in> set (take (length (split_char sep i)) keys)"
    then obtain j where j: "j < length (take (length (split_char sep i)) keys)"
        "take (length (split_char sep i)) keys ! j = keys ! n"
      by (auto simp: in_set_conv_nth)
    then have "j < length keys" "j < length (split_char sep i)" "keys ! j = keys ! n" by auto
    with d n have "j = n" by (simp add: nth_eq_iff_index_eq)
    with \<open>j < length (split_char sep i)\<close> n show False by simp
  qed
  with keys have "keys ! n \<notin> fst ` set (decode_entry keys sep i)" by simp
  then show "map_of (decode_entry keys sep i) (keys ! n) = None"
    by (simp add: map_of_eq_None_iff)
qed

theorem decode_entry_truncates_witness:
  "decode_entry [''Allele'', ''Consequence'', ''Feature''] CHR ''|'' ''A|missense_variant''
     = [(''Allele'', ''A''), (''Consequence'', ''missense_variant'')]
   \<and> map_of (decode_entry [''Allele'', ''Consequence'', ''Feature''] CHR ''|'' ''A|missense_variant'')
       ''Feature'' = None
   \<and> decode_entry [''Allele'', ''Consequence''] CHR ''|'' ''A|missense_variant|T1|x''
     = [(''Allele'', ''A''), (''Consequence'', ''missense_variant'')]"
  using decode_entry_truncates [of "[''Allele'', ''Consequence'', ''Feature'']" "CHR ''|''" "''A|missense_variant''"]
        decode_entry_truncates [of "[''Allele'', ''Consequence'']" "CHR ''|''" "''A|missense_variant|T1|x''"]
  by simp

text \<open>
  The claim as stated fails on a sub-entry with fewer values than the schema has keys:
  the key Feature is absent from the sub-record.
\<close>

theorem decode_entry_no_sentinel_counterexample:
  "update_value [(''CSQ'', Str ''A|missense_variant'')] ''CSQ'' [''Allele'', ''Consequence'', ''Feature'']
     = Inr [(''CSQ'', Subs [[(''Allele'', ''A''), (''Consequence'', ''missense_variant'')]])]
   \<and> map_of [(''Allele'', ''A''), (''Consequence'', ''missense_variant'')] ''Feature'' = None"
  by (simp add: update_value_def decode_entry_def py_dict_def)

section \<open>C4: the outer decode of an INFO field\<close>

lemma split_char_no_sep: "c \<notin> set a \<Longrightarrow> split_char c a = [a]"
  by (induction a) auto

lemma split_char_at_sep: "c \<notin> set a \<Longrightarrow> split_char c (a @ c # b) = a # split_char c b"
  by (induction a) auto

lemma item_pair_key_value:
  "CHR ''='' \<notin> set k \<Longrightarrow> CHR ''='' \<notin> set v \<Longrightarrow> item_pair (k @ CHR ''='' # v) = Inr (k, Str v)"
  by (simp add: item_pair_def split_char_at_sep split_char_no_sep)

lemma split_three:
  assumes "c \<notin> set a" "c \<notin> set b" "c \<notin> set d"
  shows "split_char c (a @ c # b @ c # d) = [a, b, d]"
proof -
  have "split_char c (a @ c # b @ c # d) = a # split_char c (b @ c # d)"
    using assms(1) by (rule split_char_at_sep)
  also have "split_char c (b @ c # d) = b # split_char c d"
    using assms(2) by (rule split_char_at_sep)
  also have "split_char c d = [d]"
    using assms(3) by (rule split_char_no_sep)
  finally show ?thesis .
qed

lemma info_add_nan_three:
  assumes "CHR '';'' \<notin> set (k1 @ v1)" "CHR '';'' \<notin> set k2" "CHR '';'' \<notin> set (k3 @ v3)"
    and "CHR ''='' \<notin> set k2"
  shows "info_add_nan (CStr ((k1 @ CHR ''='' # v1) @ CHR '';'' # k2 @ CHR '';'' # (k3 @ CHR ''='' # v3)))
           = Inr (CToks [k1 @ CHR ''='' # v1, k2 @ CHR ''='' # ''nan'', k3 @ CHR ''='' # v3])"
proof -
  have "split_char CHR '';'' ((k1 @ CHR ''='' # v1) @ CHR '';'' # k2 @ CHR '';'' # (k3 @ CHR ''='' # v3))
          = [k1 @ CHR ''='' # v1, k2, k3 @ CHR ''='' # v3]"
    using assms(1-3) by (intro split_three) auto
  then show ?thesis using assms(4) by (simp add: info_add_nan_def add_nan_def)
qed

lemma info_to_dict_three:
  assumes "CHR ''='' \<notin> set k1" "CHR ''='' \<notin> set v1" "CHR ''='' \<notin> set k2"
      "CHR ''='' \<notin> set k3" "CHR ''='' \<notin> set v3"
  shows "info_to_dict (CToks [k1 @ CHR ''='' # v1, k2 @ CHR ''='' # ''nan'', k3 @ CHR ''='' # v3])
           = Inr (CInfo (py_dict [(k1, Str v1), (k2, Str ''nan''), (k3, Str v3)]))"
proof -
  have nan: "CHR ''='' \<notin> set ''nan''" by simp
  have "item_pair (k1 @ CHR ''='' # v1) = Inr (k1, Str v1)"
       "item_pair (k2 @ CHR ''='' # ''nan'') = Inr (k2, Str ''nan'')"
       "item_pair (k3 @ CHR ''='' # v3) = Inr (k3, Str v3)"
    using assms nan by (simp_all add: item_pair_key_value)
  then show ?thesis by (simp add: info_to_dict_def bind_err_def)
qed

lemma py_dict_three:
  "map_of (py_dict [(k1, a), (k2, b), (k3, c)]) = [k1 \<mapsto> a, k2 \<mapsto> b, k3 \<mapsto> c]"
  by (rule ext) (simp add: py_dict_def)


text \<open>
  Claim C4. For keys and values that contain neither \<open>;\<close> nor \<open>=\<close>, the outer decode of
  \<open>k1=v1;k2;k3=v3\<close> (lines 286 and 289 of the source, applied in turn) is the dictionary
  built from the pairs \<open>(k1, v1)\<close>, \<open>(k2, nan)\<close>, \<open>(k3, v3)\<close>, that is, the mapping
  \<open>{k1: v1, k2: nan, k3: v3}\<close>.
\<close>

theorem info_outer_decode:
  assumes "\<forall>x \<in> {k1, v1, k2, k3, v3}. CHR '';'' \<notin> set x \<and> CHR ''='' \<notin> set x"
  shows "bind_err (info_add_nan (CStr (k1 @ ''='' @ v1 @ '';'' @ k2 @ '';'' @ k3 @ ''='' @ v3))) info_to_dict
           = Inr (CInfo (py_dict [(k1, Str v1), (k2, Str ''nan''), (k3, Str v3)]))
         \<and> map_of (py_dict [(k1, Str v1), (k2, Str ''nan''), (k3, Str v3)])
           = [k1 \<mapsto> Str v1, k2 \<mapsto> Str ''nan'', k3 \<mapsto> Str v3]"
proof
  from assms have semi: "CHR '';'' \<notin> set (k1 @ v1)" "CHR '';'' \<notin> set k2"
      "CHR '';'' \<notin> set (k3 @ v3)"
    and eq: "CHR ''='' \<notin> set k1" "CHR ''='' \<notin> set v1" "CHR ''='' \<notin> set k2"
      "CHR ''='' \<notin> set k3" "CHR ''='' \<notin> set v3"
    by auto
  have shape: "k1 @ ''='' @ v1 @ '';'' @ k2 @ '';'' @ k3 @ ''='' @ v3
      = (k1 @ CHR ''='' # v1) @ CHR '';'' # k2 @ CHR '';'' # (k3 @ CHR ''='' # v3)"
    by simp
  show "bind_err (info_add_nan (CStr (k1 @ ''='' @ v1 @ '';'' @ k2 @ '';'' @ k3 @ ''='' @ v3))) info_to_dict
           = Inr (CInfo (py_dict [(k1, Str v1), (k2, Str ''nan''), (k3, Str v3)]))"
    unfolding shape info_add_nan_three[OF semi eq(3)]
    by (simp only: bind_err_def sum.case info_to_dict_three[OF eq])
  show "map_of (py_dict [(k1, Str v1), (k2, Str ''nan''), (k3, Str v3)])
           = [k1 \<mapsto> Str v1, k2 \<mapsto> Str ''nan'', k3 \<mapsto> Str v3]"
    by (rule py_dict_three)
qed

theorem info_outer_decode_witness:
  "bind_err (info_add_nan (CStr ''DP=12;IN_PON;CSQ=A|x'')) info_to_dict
     = Inr (CInfo [(''DP'', Str ''12''), (''IN_PON'', Str ''nan''), (''CSQ'', Str ''A|x'')])"
  using info_outer_decode [of "''DP''" "''12''" "''IN_PON''" "''CSQ''" "''A|x''"]
  by (simp add: py_dict_def)

section \<open>C3: when the decode of an embedded field fails\<close>

lemma split_char_length: "length (split_char c s) = Suc (count_list s c)"
  by (induction s) (auto split: list.splits)

lemma split_char_hd: "\<exists>ps. split_char c s = takeWhile (\<lambda>x. x \<noteq> c) s # ps"
  by (induction s) (auto split: list.splits)

lemma item_pair_ok:
  assumes "count_list tok CHR ''='' = 1"
  shows "\<exists>v. item_pair tok = Inr (token_key tok, Str v)"
proof -
  obtain ps where ps: "split_char CHR ''='' tok = token_key tok # ps"
    using split_char_hd[of "CHR ''=''" tok] unfolding token_key_def by blast
  have "length (split_char CHR ''='' tok) = 2"
    using assms by (simp add: split_char_length)
  with ps have "length ps = 1" by simp
  then obtain v where "ps = [v]" by (cases ps) simp_all
  with ps show ?thesis by (simp add: item_pair_def)
qed

lemma item_pair_bad:
  assumes "count_list tok CHR ''='' \<noteq> 1"
  shows "item_pair tok = Inl ValueError"
proof -
  have "length (split_char CHR ''='' tok) \<noteq> 2"
    using assms by (simp add: split_char_length)
  then show ?thesis
    unfolding item_pair_def by (cases "split_char CHR ''='' tok" rule: list.exhaust) (auto split: list.splits)
qed


lemma map_err_all: "(\<forall>x \<in> set xs. \<exists>y. f x = Inr y) \<Longrightarrow> \<exists>ys. map_err f xs = Inr ys \<and> length ys = length xs"
  by (induction xs) auto

lemma map_err_Inr_nth:
  "map_err f xs = Inr ys \<Longrightarrow> length ys = length xs \<and> (\<forall>n < length xs. f (xs ! n) = Inr (ys ! n))"
proof (induction xs arbitrary: ys)
  case Nil
  then show ?case by simp
next
  case (Cons x xs)
  from Cons.prems obtain y zs where y: "f x = Inr y" and zs: "map_err f xs = Inr zs" and ys: "ys = y # zs"
    by (auto split: sum.splits)
  from Cons.IH[OF zs] have "length zs = length xs" "\<forall>n < length xs. f (xs ! n) = Inr (zs ! n)"
    by simp_all
  with y ys show ?case by (auto simp: nth_Cons split: nat.splits)
qed

lemma map_err_only_error:
  assumes "\<exists>x \<in> set xs. f x = Inl e" and "\<forall>x \<in> set xs. \<forall>e'. f x = Inl e' \<longrightarrow> e' = e"
  shows "map_err f xs = Inl e"
  using assms
proof (induction xs)
  case Nil
  then show ?case by simp
next
  case (Cons x xs)
  show ?case
  proof (cases "f x")
    case (Inl e')
    with Cons.prems(2) have "e' = e" by simp
    with Inl show ?thesis by simp
  next
    case (Inr y)
    with Cons.prems have "\<exists>x \<in> set xs. f x = Inl e" "\<forall>x \<in> set xs. \<forall>e'. f x = Inl e' \<longrightarrow> e' = e"
      by auto
    then have "map_err f xs = Inl e" by (rule Cons.IH)
    with Inr show ?thesis by simp
  qed
qed


lemma map_err_projr:
  "(\<forall>x \<in> set xs. \<exists>y. f x = Inr y) \<Longrightarrow> map_err f xs = Inr (map (\<lambda>x. projr (f x)) xs)"
  by (induction xs) auto

lemma py_dict_map_of: "map_of (py_dict ps) = map_of (rev ps)"
proof -
  have "map_of (fold (\<lambda>(k, v) d. AList.update k v d) ps acc) = map_of (rev ps @ acc)" for acc
  proof (induction ps arbitrary: acc)
    case Nil
    then show ?case by simp
  next
    case (Cons p ps)
    obtain k v where p: "p = (k, v)" by (cases p)
    have "map_of (fold (\<lambda>(k, v) d. AList.update k v d) ps (AList.update k v acc))
            = map_of (rev ps @ AList.update k v acc)"
      by (rule Cons.IH)
    also have "\<dots> = map_of (rev ps @ (k, v) # acc)"
      by (simp add: AList.update_conv')
    finally show ?case using p by simp
  qed
  from this[of "[]"] show ?thesis by (simp add: py_dict_def)
qed

lemma update_length: "length (AList.update k v al) \<le> Suc (length al)"
  by (induction al) auto

lemma py_dict_length: "length (py_dict ps) \<le> length ps"
proof -
  have "length (fold (\<lambda>(k, v) d. AList.update k v d) ps acc) \<le> length acc + length ps" for acc
  proof (induction ps arbitrary: acc)
    case Nil
    then show ?case by simp
  next
    case (Cons p ps)
    obtain k v where p: "p = (k, v)" by (cases p)
    have "length (fold (\<lambda>(k, v) d. AList.update k v d) ps (AList.update k v acc))
            \<le> length (AList.update k v acc) + length ps"
      by (rule Cons.IH)
    also have "\<dots> \<le> Suc (length acc) + length ps"
      using update_length[of k v acc] by simp
    finally show ?case using p by simp
  qed
  from this[of "[]"] show ?thesis by (simp add: py_dict_def)
qed

lemma decode_entry_length: "length (decode_entry keys sep i) \<le> length keys"
proof -
  have "length (decode_entry keys sep i) \<le> length (zip keys (split_char sep i))"
    unfolding decode_entry_def by (rule py_dict_length)
  then show ?thesis by simp
qed

lemma add_nan_count: "(count_list (add_nan i) CHR ''='' = 1) = (count_list i CHR ''='' \<le> 1)"
proof (cases "CHR ''='' \<in> set i")
  case True
  then have "count_list i CHR ''='' \<noteq> 0" by (simp add: count_list_0_iff)
  with True show ?thesis by (auto simp: add_nan_def)
next
  case False
  then have "count_list i CHR ''='' = 0" by (simp add: count_list_0_iff)
  with False show ?thesis by (simp add: add_nan_def)
qed

lemma takeWhile_all: "c \<notin> set i \<Longrightarrow> takeWhile (\<lambda>x. x \<noteq> c) (i @ c # r) = i"
  by (induction i) auto

lemma takeWhile_none: "c \<notin> set i \<Longrightarrow> takeWhile (\<lambda>x. x \<noteq> c) i = i"
  by (induction i) auto

lemma add_nan_key: "token_key (add_nan i) = token_key i"
proof (cases "CHR ''='' \<in> set i")
  case True
  then show ?thesis by (simp add: add_nan_def)
next
  case False
  then have "token_key (i @ CHR ''='' # ''nan'') = i" "token_key i = i"
    unfolding token_key_def by (rule takeWhile_all, rule takeWhile_none)
  with False show ?thesis by (simp add: add_nan_def)
qed

lemma item_pair_error: "item_pair tok = Inl e \<Longrightarrow> e = ValueError"
  using item_pair_ok[of tok] item_pair_bad[of tok] by (cases "count_list tok CHR ''='' = 1") auto

lemma outer_decode_fails:
  assumes "\<not> list_all (\<lambda>tok. count_list tok CHR ''='' \<le> 1) (split_char CHR '';'' s)"
  shows "bind_err (info_add_nan (CStr s)) info_to_dict = Inl ValueError"
proof -
  from assms obtain tok where tok: "tok \<in> set (split_char CHR '';'' s)"
      "\<not> count_list tok CHR ''='' \<le> 1"
    by (auto simp: list_all_iff)
  then have "count_list (add_nan tok) CHR ''='' \<noteq> 1" by (simp only: add_nan_count) simp
  then have "item_pair (add_nan tok) = Inl ValueError" by (rule item_pair_bad)
  with tok(1) have ex: "\<exists>x \<in> set (map add_nan (split_char CHR '';'' s)). item_pair x = Inl ValueError"
    by auto
  have only: "\<forall>x \<in> set (map add_nan (split_char CHR '';'' s)). \<forall>e'. item_pair x = Inl e' \<longrightarrow> e' = ValueError"
    using item_pair_error by blast
  have "map_err item_pair (map add_nan (split_char CHR '';'' s)) = Inl ValueError"
    using ex only by (rule map_err_only_error)
  then show ?thesis by (simp add: info_add_nan_def info_to_dict_def bind_err_def)
qed

lemma outer_decode_succeeds:
  assumes "list_all (\<lambda>tok. count_list tok CHR ''='' \<le> 1) (split_char CHR '';'' s)"
  shows "\<exists>ps. bind_err (info_add_nan (CStr s)) info_to_dict = Inr (CInfo (py_dict ps))
            \<and> fst ` set ps = token_key ` set (split_char CHR '';'' s)
            \<and> (\<forall>p \<in> set ps. \<exists>v. snd p = Str v)"
proof -
  let ?toks = "split_char CHR '';'' s"
  let ?ps = "map (\<lambda>x. projr (item_pair x)) (map add_nan ?toks)"
  have pair: "\<exists>v. item_pair (add_nan tok) = Inr (token_key tok, Str v)" if "tok \<in> set ?toks" for tok
  proof -
    from that assms have "count_list tok CHR ''='' \<le> 1" by (simp add: list_all_iff)
    then have "count_list (add_nan tok) CHR ''='' = 1" by (simp only: add_nan_count)
    then have "\<exists>v. item_pair (add_nan tok) = Inr (token_key (add_nan tok), Str v)" by (rule item_pair_ok)
    then show ?thesis by (simp only: add_nan_key)
  qed
  then have "\<forall>x \<in> set (map add_nan ?toks). \<exists>y. item_pair x = Inr y" by fastforce
  then have "map_err item_pair (map add_nan ?toks) = Inr ?ps" by (rule map_err_projr)
  then have 1: "bind_err (info_add_nan (CStr s)) info_to_dict = Inr (CInfo (py_dict ?ps))"
    by (simp add: info_add_nan_def info_to_dict_def bind_err_def)
  have proj: "\<exists>v. projr (item_pair (add_nan tok)) = (token_key tok, Str v)" if "tok \<in> set ?toks" for tok
    using pair[OF that] by auto
  have 2: "fst ` set ?ps = token_key ` set ?toks"
  proof (intro set_eqI iffI)
    fix k assume "k \<in> fst ` set ?ps"
    then obtain tok where "tok \<in> set ?toks" "k = fst (projr (item_pair (add_nan tok)))" by auto
    with proj[of tok] show "k \<in> token_key ` set ?toks" by auto
  next
    fix k assume "k \<in> token_key ` set ?toks"
    then obtain tok where t: "tok \<in> set ?toks" "k = token_key tok" by auto
    with proj[of tok] have "k = fst (projr (item_pair (add_nan tok)))" by auto
    moreover from t have "projr (item_pair (add_nan tok)) \<in> set ?ps" by auto
    ultimately show "k \<in> fst ` set ?ps" by blast
  qed
  have 3: "\<forall>p \<in> set ?ps. \<exists>v. snd p = Str v"
  proof
    fix p assume "p \<in> set ?ps"
    then obtain tok where "tok \<in> set ?toks" "p = projr (item_pair (add_nan tok))" by auto
    with proj[of tok] show "\<exists>v. snd p = Str v" by auto
  qed
  from 1 2 3 show ?thesis by blast
qed


lemma update_value_missing:
  "key \<notin> fst ` set dict_a \<Longrightarrow> update_value dict_a key csq_keys = Inl KeyError"
proof -
  assume "key \<notin> fst ` set dict_a"
  then have "map_of dict_a key = None" by (simp add: map_of_eq_None_iff)
  then show ?thesis by (simp add: update_value_def)
qed

lemma update_value_string:
  assumes "map_of dict_a key = Some (Str v)"
  shows "\<exists>d. update_value dict_a key csq_keys = Inr d
           \<and> map_of d key = Some (Subs (map (decode_entry csq_keys CHR ''|'') (split_char CHR '','' v)))"
  using assms by (simp add: update_value_def AList.update_conv')

lemma field_decode_ValueError:
  assumes "\<not> list_all (\<lambda>tok. count_list tok CHR ''='' \<le> 1) (split_char CHR '';'' s)"
  shows "vcf_field_decode csq_keys s = Inl ValueError"
  unfolding vcf_field_decode_def outer_decode_fails[OF assms] by (simp add: bind_err_def)

lemma field_decode_KeyError:
  assumes "list_all (\<lambda>tok. count_list tok CHR ''='' \<le> 1) (split_char CHR '';'' s)"
    and "''CSQ'' \<notin> token_key ` set (split_char CHR '';'' s)"
  shows "vcf_field_decode csq_keys s = Inl KeyError"
proof -
  from outer_decode_succeeds[OF assms(1)] obtain ps where
    ps: "bind_err (info_add_nan (CStr s)) info_to_dict = Inr (CInfo (py_dict ps))"
      "fst ` set ps = token_key ` set (split_char CHR '';'' s)"
    by blast
  with assms(2) have "''CSQ'' \<notin> fst ` set (py_dict ps)" by (simp add: py_dict_keys)
  then have "update_value (py_dict ps) ''CSQ'' csq_keys = Inl KeyError"
    by (rule update_value_missing)
  then show ?thesis
    unfolding vcf_field_decode_def ps(1) by (simp add: bind_err_def on_info_def)
qed

lemma field_decode_ok:
  assumes "list_all (\<lambda>tok. count_list tok CHR ''='' \<le> 1) (split_char CHR '';'' s)"
    and "''CSQ'' \<in> token_key ` set (split_char CHR '';'' s)"
  shows "\<exists>d subs. vcf_field_decode csq_keys s = Inr (CInfo d)
            \<and> map_of d ''CSQ'' = Some (Subs subs)
            \<and> (\<forall>sub \<in> set subs. length sub \<le> length csq_keys)"
proof -
  from outer_decode_succeeds[OF assms(1)] obtain ps where
    ps: "bind_err (info_add_nan (CStr s)) info_to_dict = Inr (CInfo (py_dict ps))"
      "fst ` set ps = token_key ` set (split_char CHR '';'' s)"
      "\<forall>p \<in> set ps. \<exists>v. snd p = Str v"
    by blast
  from assms(2) ps(2) have "''CSQ'' \<in> fst ` set (py_dict ps)" by (simp add: py_dict_keys)
  then obtain x where x: "map_of (py_dict ps) ''CSQ'' = Some x"
    by (metis map_of_eq_None_iff not_Some_eq)
  then have "map_of (rev ps) ''CSQ'' = Some x" by (simp only: py_dict_map_of)
  then have "(''CSQ'', x) \<in> set ps" by (auto dest: map_of_SomeD)
  with ps(3) obtain v where "x = Str v" by fastforce
  with x have "map_of (py_dict ps) ''CSQ'' = Some (Str v)" by simp
  from update_value_string[OF this, of csq_keys] obtain d where
    d: "update_value (py_dict ps) ''CSQ'' csq_keys = Inr d"
       "map_of d ''CSQ'' = Some (Subs (map (decode_entry csq_keys CHR ''|'') (split_char CHR '','' v)))"
    by blast
  have "vcf_field_decode csq_keys s = Inr (CInfo d)"
    unfolding vcf_field_decode_def ps(1) using d(1) by (simp add: bind_err_def on_info_def)
  moreover have "\<forall>sub \<in> set (map (decode_entry csq_keys CHR ''|'') (split_char CHR '','' v)).
      length sub \<le> length csq_keys"
    by (auto simp: decode_entry_length)
  ultimately show ?thesis using d(2) by blast
qed

lemma all_effects_decode_string:
  "\<exists>subs. all_effects_decode (CStr s) = Inr (CSubs subs) \<and> (\<forall>sub \<in> set subs. length sub \<le> 11)"
proof -
  have "length maf_keys = 11" by (simp add: maf_keys_def)
  then have "\<forall>sub \<in> set (map (decode_entry maf_keys CHR '','') (split_char CHR '';'' s)). length sub \<le> 11"
    using decode_entry_length[of maf_keys] by (metis (no_types, lifting) imageE list.set_map)
  then show ?thesis by (simp add: all_effects_decode_def)
qed

text \<open>
  Claim C3, as amended. The MAF decode of \<open>all_effects\<close> succeeds on every string, and
  its sub-records have at most the 11 keys of the schema. The VCF decode of an INFO
  string (lines 286, 289 and 292) raises ValueError exactly when some token between two
  \<open>;\<close> contains more than one \<open>=\<close>; otherwise it raises KeyError exactly when no
  token has the key CSQ; otherwise it succeeds, and the sub-records under CSQ have at
  most as many keys as the schema (short sub-entries give short sub-records).
\<close>

theorem field_decode_failures:
  "(\<not> list_all (\<lambda>tok. count_list tok CHR ''='' \<le> 1) (split_char CHR '';'' s) \<longrightarrow>
      vcf_field_decode csq_keys s = Inl ValueError)
   \<and> (list_all (\<lambda>tok. count_list tok CHR ''='' \<le> 1) (split_char CHR '';'' s)
        \<and> ''CSQ'' \<notin> token_key ` set (split_char CHR '';'' s) \<longrightarrow>
      vcf_field_decode csq_keys s = Inl KeyError)
   \<and> (list_all (\<lambda>tok. count_list tok CHR ''='' \<le> 1) (split_char CHR '';'' s)
        \<and> ''CSQ'' \<in> token_key ` set (split_char CHR '';'' s) \<longrightarrow>
      (\<exists>d subs. vcf_field_decode csq_keys s = Inr (CInfo d)
         \<and> map_of d ''CSQ'' = Some (Subs subs)
         \<and> (\<forall>sub \<in> set subs. length sub \<le> length csq_keys)))
   \<and> (\<exists>subs. all_effects_decode (CStr s) = Inr (CSubs subs)
         \<and> (\<forall>sub \<in> set subs. length sub \<le> 11))"
  using field_decode_ValueError field_decode_KeyError field_decode_ok all_effects_decode_string
  by blast

theorem field_decode_failures_witness:
  "vcf_field_decode [''Allele'', ''Consequence'', ''Feature''] ''DP=12;IN_PON;CSQ=A|x,C|y|T1|z''
     = Inr (CInfo [(''DP'', Str ''12''), (''IN_PON'', Str ''nan''),
                   (''CSQ'', Subs [[(''Allele'', ''A''), (''Consequence'', ''x'')],
                                   [(''Allele'', ''C''), (''Consequence'', ''y''), (''Feature'', ''T1'')]])])
   \<and> vcf_field_decode [''Allele''] ''DP=12;IN_PON'' = Inl KeyError
   \<and> vcf_field_decode [''Allele''] ''DP=12;CSQ=A;X=a=b'' = Inl ValueError"
  using field_decode_failures [of "''DP=12;IN_PON;CSQ=A|x,C|y|T1|z''" "[''Allele'', ''Consequence'', ''Feature'']"]
        field_decode_failures [of "''DP=12;IN_PON''" "[''Allele'']"]
        field_decode_failures [of "''DP=12;CSQ=A;X=a=b''" "[''Allele'']"]
  by (simp add: vcf_field_decode_def info_add_nan_def add_nan_def info_to_dict_def item_pair_def
        bind_err_def on_info_def update_value_def decode_entry_def py_dict_def token_key_def)

text \<open>
  The claim as stated fails on a value that contains \<open>=\<close>: the token \<open>X=a=b\<close> splits
  into three pieces and \<open>dict\<close> raises ValueError.
\<close>

theorem field_decode_extra_equals_counterexample:
  "bind_err (info_add_nan (CStr ''DP=12;CSQ=A;X=a=b'')) info_to_dict = Inl ValueError"
  by (simp add: info_add_nan_def add_nan_def info_to_dict_def item_pair_def bind_err_def)

section \<open>C10: the unused parameters of read\_process\_maf\<close>

text \<open>
  Claim C10. \<open>read_process_maf\<close> returns the same result for any two values of
  \<open>variant\<close> and of \<open>variant_class\<close>: the result depends only on the file, on
  \<open>consequence\<close> and on \<open>id_list\<close>.
\<close>

theorem read_process_maf_unused_parameters:
  "read_process_maf ext f variant consequence variant_class id_list
     = read_process_maf ext f variant' consequence variant_class' id_list"
  by (simp add: read_process_maf_def)

section \<open>C7: the case-identifier extractor\<close>

lemma py_index_first: "\<exists>p. py_index (split_char c s) 0 = Inr p"
  by (simp add: py_index_def split_char_length)

lemma py_index_second: "c \<in> set s \<Longrightarrow> \<exists>p. py_index (split_char c s) (Suc 0) = Inr p"
proof -
  assume "c \<in> set s"
  then have "count_list s c \<noteq> 0" by (simp add: count_list_0_iff)
  then show ?thesis by (simp add: py_index_def split_char_length)
qed

lemma case_id_loop_returns:
  "\<forall>l \<in> set lines. prefix ''##SAMPLE=<ID=TUMOR'' l \<longrightarrow> CHR '','' \<in> set l \<Longrightarrow>
   \<exists>r. case_id_loop lines ident samp = Inr r"
proof (induction lines arbitrary: ident samp)
  case Nil
  then show ?case by simp
next
  case (Cons line rest)
  then have rest: "\<And>i s. \<exists>r. case_id_loop rest i s = Inr r" by simp
  obtain p where p: "py_index (split_char CHR '','' line) 0 = Inr p"
    using py_index_first by blast
  show ?case
  proof (cases "prefix ''##SAMPLE=<ID=TUMOR'' line")
    case True
    with Cons.prems have "CHR '','' \<in> set line" by simp
    then obtain q where q: "py_index (split_char CHR '','' line) (Suc 0) = Inr q"
      using py_index_second by blast
    show ?thesis using rest by (simp add: p q Let_def del: prefix_code Cons_prefix_Cons)
  next
    case False
    then show ?thesis using rest by (simp add: p Let_def del: prefix_code Cons_prefix_Cons)
  qed
qed


lemma case_id_loop_stops_at_body:
  "\<not> prefix ''##'' l \<Longrightarrow>
   case_id_loop (pre @ l # post) ident samp = case_id_loop pre ident samp"
proof (induction pre arbitrary: ident samp)
  case Nil
  then show ?case by simp
next
  case (Cons line rest)
  then have IH: "\<And>i s. case_id_loop (rest @ l # post) i s = case_id_loop rest i s" by simp
  show ?case
    by (simp add: IH Let_def del: prefix_code Cons_prefix_Cons split: sum.splits)
qed

lemma case_id_loop_stops_when_found:
  "\<not> (ident \<noteq> [] \<and> samp \<noteq> []) \<Longrightarrow>
   case_id_loop pre ident samp = Inr (i, s) \<Longrightarrow> i \<noteq> [] \<Longrightarrow> s \<noteq> [] \<Longrightarrow>
   case_id_loop (pre @ post) ident samp = Inr (i, s)"
proof (induction pre arbitrary: ident samp)
  case Nil
  then show ?case by auto
next
  case (Cons line rest)
  show ?case
  proof (cases "prefix ''##'' line")
    case False
    with Cons.prems show ?thesis by auto
  next
    case meta: True
    show ?thesis
    proof (cases "prefix ''##INDIVIDUAL'' line")
      case True
      obtain p where p: "py_index (split_char CHR '','' line) 0 = Inr p"
        using py_index_first by blast
      let ?i = "replace_str ''##INDIVIDUAL=<NAME='' [] p"
      show ?thesis
      proof (cases "?i \<noteq> [] \<and> samp \<noteq> []")
        case found: True
        with Cons.prems(2) meta True p show ?thesis
          by (simp add: Let_def del: prefix_code Cons_prefix_Cons)
      next
        case notyet: False
        with Cons.prems(2) meta True p have "case_id_loop rest ?i samp = Inr (i, s)"
          by (auto simp add: Let_def simp del: prefix_code Cons_prefix_Cons split: if_splits)
        from Cons.IH[OF notyet this Cons.prems(3,4)] notyet meta True p show ?thesis
          by (auto simp add: Let_def simp del: prefix_code Cons_prefix_Cons)
      qed
    next
      case noind: False
      show ?thesis
      proof (cases "prefix ''##SAMPLE=<ID=TUMOR'' line")
        case True
        show ?thesis
        proof (cases "py_index (split_char CHR '','' line) (Suc 0)")
          case (Inl e)
          with Cons.prems(2) meta noind True show ?thesis
            by (simp del: prefix_code Cons_prefix_Cons)
        next
          case (Inr q)
          let ?s = "replace_str ''NAME='' [] q"
          show ?thesis
          proof (cases "ident \<noteq> [] \<and> ?s \<noteq> []")
            case found: True
            with Cons.prems(2) meta noind True Inr show ?thesis
              by (simp add: Let_def del: prefix_code Cons_prefix_Cons)
          next
            case notyet: False
            with Cons.prems(2) meta noind True Inr have "case_id_loop rest ident ?s = Inr (i, s)"
              by (auto simp add: Let_def simp del: prefix_code Cons_prefix_Cons split: if_splits)
            from Cons.IH[OF notyet this Cons.prems(3,4)] notyet meta noind True Inr show ?thesis
              by (auto simp add: Let_def simp del: prefix_code Cons_prefix_Cons)
          qed
        qed
      next
        case False
        with Cons.prems(2) meta noind have "case_id_loop rest ident samp = Inr (i, s)"
          by (simp del: prefix_code Cons_prefix_Cons)
        from Cons.IH[OF Cons.prems(1) this Cons.prems(3,4)] False meta noind show ?thesis
          by (simp del: prefix_code Cons_prefix_Cons)
      qed
    qed
  qed
qed

lemma case_id_loop_identifier_kept:
  "\<forall>l \<in> set lines. \<not> prefix ''##INDIVIDUAL'' l \<Longrightarrow>
   case_id_loop lines ident samp = Inr (i, s) \<Longrightarrow> i = ident"
proof (induction lines arbitrary: samp)
  case Nil
  then show ?case by simp
next
  case (Cons line rest)
  from Cons.prems(1) have no: "\<not> prefix ''##INDIVIDUAL'' line"
    and rest: "\<forall>l \<in> set rest. \<not> prefix ''##INDIVIDUAL'' l" by simp_all
  from Cons.prems(2) no show ?case
    using Cons.IH[OF rest]
    by (auto simp add: Let_def simp del: prefix_code Cons_prefix_Cons split: if_splits sum.splits)
qed

lemma case_id_loop_sample_kept:
  "\<forall>l \<in> set lines. \<not> prefix ''##SAMPLE=<ID=TUMOR'' l \<Longrightarrow>
   case_id_loop lines ident samp = Inr (i, s) \<Longrightarrow> s = samp"
proof (induction lines arbitrary: ident)
  case Nil
  then show ?case by simp
next
  case (Cons line rest)
  from Cons.prems(1) have no: "\<not> prefix ''##SAMPLE=<ID=TUMOR'' line"
    and rest: "\<forall>l \<in> set rest. \<not> prefix ''##SAMPLE=<ID=TUMOR'' l" by simp_all
  from Cons.prems(2) no show ?case
    using Cons.IH[OF rest]
    by (auto simp add: Let_def simp del: prefix_code Cons_prefix_Cons split: if_splits sum.splits)
qed


text \<open>
  Claim C7, as amended. On every sequence of lines in which each line that starts with
  \<open>##SAMPLE=<ID=TUMOR\<close> contains a comma, \<open>case_id\<close> returns a pair and does not fail
  (on a scanned line of that kind without a comma, \<open>line.split(',')[1]\<close> raises
  IndexError). The scan ends at the first line that does not start with \<open>##\<close>: the
  lines from there on do not matter. It ends once both values are non-empty: lines added
  after such a result do not change it. A value whose line prefix never occurs is the
  empty string.
\<close>

theorem case_id_scan:
  "((\<forall>l \<in> set lines. prefix ''##SAMPLE=<ID=TUMOR'' l \<longrightarrow> CHR '','' \<in> set l) \<longrightarrow>
      (\<exists>r. case_id_loop lines [] [] = Inr r))
   \<and> (\<not> prefix ''##'' l \<longrightarrow>
        case_id_loop (pre @ l # post) [] [] = case_id_loop pre [] [])
   \<and> (case_id_loop pre [] [] = Inr (i, s) \<and> i \<noteq> [] \<and> s \<noteq> [] \<longrightarrow>
        case_id_loop (pre @ post) [] [] = Inr (i, s))
   \<and> (case_id_loop lines [] [] = Inr (i', s') \<longrightarrow>
        ((\<forall>l \<in> set lines. \<not> prefix ''##INDIVIDUAL'' l) \<longrightarrow> i' = [])
        \<and> ((\<forall>l \<in> set lines. \<not> prefix ''##SAMPLE=<ID=TUMOR'' l) \<longrightarrow> s' = []))"
proof (intro conjI impI)
  assume "\<forall>l \<in> set lines. prefix ''##SAMPLE=<ID=TUMOR'' l \<longrightarrow> CHR '','' \<in> set l"
  then show "\<exists>r. case_id_loop lines [] [] = Inr r" by (rule case_id_loop_returns)
next
  assume "\<not> prefix ''##'' l"
  then show "case_id_loop (pre @ l # post) [] [] = case_id_loop pre [] []"
    by (rule case_id_loop_stops_at_body)
next
  assume "case_id_loop pre [] [] = Inr (i, s) \<and> i \<noteq> [] \<and> s \<noteq> []"
  then show "case_id_loop (pre @ post) [] [] = Inr (i, s)"
    using case_id_loop_stops_when_found[of "[]" "[]" pre i s post] by simp
next
  assume "case_id_loop lines [] [] = Inr (i', s')" "\<forall>l \<in> set lines. \<not> prefix ''##INDIVIDUAL'' l"
  then show "i' = []" using case_id_loop_identifier_kept[of lines "[]" "[]" i' s'] by simp
next
  assume "case_id_loop lines [] [] = Inr (i', s')" "\<forall>l \<in> set lines. \<not> prefix ''##SAMPLE=<ID=TUMOR'' l"
  then show "s' = []" using case_id_loop_sample_kept[of lines "[]" "[]" i' s'] by simp
qed

lemma sample_case_id:
  "case_id_loop [''##SAMPLE=<ID=TUMOR,NAME=s1,x'', ''##INDIVIDUAL=<NAME=c1,x''] [] []
     = Inr (''c1'', ''s1'')"
  by code_simp

theorem case_id_scan_witness:
  "(\<exists>r. case_id_loop [''##SAMPLE=<ID=TUMOR,NAME=s1,x'', ''##fileformat=VCFv4.2''] [] [] = Inr r)
   \<and> case_id_loop ([''##SAMPLE=<ID=TUMOR,NAME=s1,x''] @ ''#CHROM'' # [''##INDIVIDUAL=<NAME=c1,x'']) [] []
       = case_id_loop [''##SAMPLE=<ID=TUMOR,NAME=s1,x''] [] []
   \<and> case_id_loop ([''##SAMPLE=<ID=TUMOR,NAME=s1,x'', ''##INDIVIDUAL=<NAME=c1,x'']
                      @ [''##INDIVIDUAL=<NAME=c2,x'']) [] []
       = Inr (''c1'', ''s1'')"
  using case_id_scan [of "[''##SAMPLE=<ID=TUMOR,NAME=s1,x'', ''##fileformat=VCFv4.2'']"
                         "''#CHROM''" "[''##SAMPLE=<ID=TUMOR,NAME=s1,x'']"
                         "[''##INDIVIDUAL=<NAME=c1,x'']"]
        case_id_scan [of "[]" "''#CHROM''"
                         "[''##SAMPLE=<ID=TUMOR,NAME=s1,x'', ''##INDIVIDUAL=<NAME=c1,x'']"
                         "[''##INDIVIDUAL=<NAME=c2,x'']" "''c1''" "''s1''"]
        sample_case_id
  by simp

text \<open>
  The claim as stated fails on a tumour sample line without a comma: \<open>case_id\<close> raises
  IndexError.
\<close>

theorem case_id_fails_counterexample:
  "case_id_loop [''##fileformat=VCFv4.2'', ''##SAMPLE=<ID=TUMOR>''] [] [] = Inl IndexError"
  by (simp add: py_index_def)

section \<open>C6: the schema extractor\<close>

lemma split_join:
  "ks \<noteq> [] \<Longrightarrow> \<forall>k \<in> set ks. c \<notin> set k \<Longrightarrow> split_char c (join_with c ks) = ks"
proof (induction c ks rule: join_with.induct)
  case (1 c)
  then show ?case by simp
next
  case (2 c k)
  then show ?case by (simp add: split_char_no_sep)
next
  case (3 c k k' ks)
  then have "split_char c (join_with c (k' # ks)) = k' # ks" by simp
  moreover from 3 have "c \<notin> set k" by simp
  ultimately show ?case by (simp add: split_char_at_sep)
qed

lemma join_with_chars: "x \<in> set (join_with c ks) \<Longrightarrow> x = c \<or> (\<exists>k \<in> set ks. x \<in> set k)"
  by (induction c ks rule: join_with.induct) auto

lemma split_first_here:
  assumes "sep \<noteq> []"
  shows "split_first sep (sep @ rest) = Some ([], rest)"
proof -
  from assms obtain c cs where "sep = c # cs" by (cases sep) auto
  then have "sep @ rest = c # (cs @ rest)" by simp
  moreover have "prefix sep (sep @ rest)" by simp
  ultimately have "split_first sep (sep @ rest) = Some ([], drop (length sep) (sep @ rest))"
    by (metis split_first.simps(2))
  then show ?thesis by simp
qed

lemma split_first_at:
  assumes "sep \<noteq> []"
  shows "\<not> str_contains sep (pre @ butlast sep) \<Longrightarrow>
         split_first sep (pre @ sep @ rest) = Some (pre, rest)"
proof (induction pre)
  case Nil
  then show ?case using split_first_here[OF assms] by simp
next
  case (Cons c pre)
  from Cons.prems have np: "\<not> prefix sep (c # pre @ butlast sep)"
    and nc: "\<not> str_contains sep (pre @ butlast sep)" by simp_all
  have "\<not> prefix sep (c # pre @ sep @ rest)"
  proof
    assume a: "prefix sep (c # pre @ sep @ rest)"
    have "prefix (butlast sep) sep" by (simp add: prefixeq_butlast)
    then have "prefix (butlast sep) (sep @ rest)" by (rule prefix_prefix)
    then have b: "prefix (c # pre @ butlast sep) (c # pre @ sep @ rest)" by simp
    have "length sep \<le> length (c # pre @ butlast sep)" by simp
    with a b have "prefix sep (c # pre @ butlast sep)" by (rule prefix_length_prefix)
    with np show False by contradiction
  qed
  moreover have "split_first sep (pre @ sep @ rest) = Some (pre, rest)"
    using nc by (rule Cons.IH)
  ultimately show ?case by simp
qed


lemma replace_tail_only: "replace_from header_tail [] 0 header_tail = []"
  by (simp add: header_tail_def numeral_2_eq_2)

lemma no_tail_inside:
  assumes "CHR ''\<newline>'' \<notin> set (c # body)"
  shows "\<not> prefix header_tail (c # body @ header_tail)"
proof (cases body)
  case Nil
  then show ?thesis by (simp add: header_tail_def)
next
  case (Cons a body')
  show ?thesis
  proof (cases body')
    case Nil
    with Cons show ?thesis by (simp add: header_tail_def)
  next
    case (Cons b body'')
    with \<open>body = a # body'\<close> assms show ?thesis by (auto simp: header_tail_def)
  qed
qed

lemma replace_tail:
  "CHR ''\<newline>'' \<notin> set body \<Longrightarrow> replace_str header_tail [] (body @ header_tail) = body"
  unfolding replace_str_def
proof (induction body)
  case Nil
  then show ?case by (simp add: replace_tail_only)
next
  case (Cons c body)
  then have "\<not> prefix header_tail (c # body @ header_tail)" by (intro no_tail_inside) simp
  moreover from Cons have "replace_from header_tail [] 0 (body @ header_tail) = body" by simp
  ultimately show ?case by simp
qed

lemma csqkeys_loop_skips:
  "\<forall>l \<in> set before. \<not> prefix ''##INFO=<ID=CSQ'' l \<Longrightarrow>
   csqkeys_loop (before @ rest) = csqkeys_loop rest"
  by (induction before) (simp_all del: prefix_code Cons_prefix_Cons)

lemma csqkeys_loop_declaring_line:
  assumes "prefix ''##INFO=<ID=CSQ'' pre"
    and "\<not> str_contains ''Format: '' (pre @ ''Format:'')"
    and "ks \<noteq> []"
    and "\<forall>k \<in> set ks. CHR ''|'' \<notin> set k \<and> CHR ''\<newline>'' \<notin> set k"
  shows "csqkeys_loop ((pre @ ''Format: '' @ join_with CHR ''|'' ks @ header_tail) # after) = Inr ks"
proof -
  let ?body = "join_with CHR ''|'' ks"
  let ?line = "pre @ ''Format: '' @ ?body @ header_tail"
  from assms(1) have start: "prefix ''##INFO=<ID=CSQ'' ?line" by (rule prefix_prefix)
  have m: "format_marker \<noteq> []" "butlast format_marker = ''Format:''"
    by (simp_all add: format_marker_def)
  from assms(2) m(2) have "\<not> str_contains format_marker (pre @ butlast format_marker)"
    by (simp add: format_marker_def)
  from split_first_at[OF m(1) this, of "?body @ header_tail"]
  have split: "split_first format_marker ?line = Some (pre, ?body @ header_tail)"
    by (simp add: format_marker_def)
  have "CHR ''\<newline>'' \<notin> set ?body"
    using assms(4) join_with_chars[of "CHR ''\<newline>''" "CHR ''|''" ks] by auto
  then have tail: "replace_str header_tail [] (?body @ header_tail) = ?body"
    by (rule replace_tail)
  from assms(3,4) have keys: "split_char CHR ''|'' ?body = ks"
    by (intro split_join) auto
  have "csqkeys_loop (?line # after)
          = (case split_first format_marker ?line of
               None \<Rightarrow> Inl IndexError
             | Some (before, after) \<Rightarrow> Inr (split_char CHR ''|'' (replace_str header_tail [] after)))"
    using start by (simp del: prefix_code Cons_prefix_Cons)
  also have "\<dots> = Inr ks" by (simp only: split tail keys option.case prod.case)
  finally show ?thesis .
qed

lemma csqkeys_loop_absent:
  "\<forall>l \<in> set lines. \<not> prefix ''##INFO=<ID=CSQ'' l \<Longrightarrow> csqkeys_loop lines = Inr []"
  using csqkeys_loop_skips[of lines "[]"] by simp

text \<open>
  Claim C6. Let the header lines of a file hold a first line that starts with
  \<open>##INFO=<ID=CSQ\<close>, in which the marker \<open>Format: \<close> first occurs right before the
  keys, the keys are written with \<open>|\<close> between them and contain neither \<open>|\<close> nor a
  newline, and the line ends with a double quote, \<open>>\<close> and the newline. Then
  \<open>csqkeys\<close> returns exactly the list of these keys, in their order. If no line starts
  with \<open>##INFO=<ID=CSQ\<close>, it returns the empty sequence.
\<close>

theorem csqkeys_schema:
  "(fn_open ext f = Inr (before @ (pre @ ''Format: '' @ join_with CHR ''|'' ks @ header_tail) # after)
      \<and> (\<forall>l \<in> set before. \<not> prefix ''##INFO=<ID=CSQ'' l)
      \<and> prefix ''##INFO=<ID=CSQ'' pre
      \<and> \<not> str_contains ''Format: '' (pre @ ''Format:'')
      \<and> ks \<noteq> []
      \<and> (\<forall>k \<in> set ks. CHR ''|'' \<notin> set k \<and> CHR ''\<newline>'' \<notin> set k)
      \<longrightarrow> csqkeys ext f = Inr ks)
   \<and> (fn_open ext f = Inr lines \<and> (\<forall>l \<in> set lines. \<not> prefix ''##INFO=<ID=CSQ'' l)
      \<longrightarrow> csqkeys ext f = Inr [])"
proof (intro conjI impI)
  assume a: "fn_open ext f = Inr (before @ (pre @ ''Format: '' @ join_with CHR ''|'' ks @ header_tail) # after)
      \<and> (\<forall>l \<in> set before. \<not> prefix ''##INFO=<ID=CSQ'' l)
      \<and> prefix ''##INFO=<ID=CSQ'' pre
      \<and> \<not> str_contains ''Format: '' (pre @ ''Format:'')
      \<and> ks \<noteq> []
      \<and> (\<forall>k \<in> set ks. CHR ''|'' \<notin> set k \<and> CHR ''\<newline>'' \<notin> set k)"
  then have "csqkeys ext f
      = csqkeys_loop (before @ (pre @ ''Format: '' @ join_with CHR ''|'' ks @ header_tail) # after)"
    by (simp add: csqkeys_def bind_err_def)
  also have "\<dots> = csqkeys_loop ((pre @ ''Format: '' @ join_with CHR ''|'' ks @ header_tail) # after)"
    using a by (intro csqkeys_loop_skips) simp
  also have "\<dots> = Inr ks"
    using a by (intro csqkeys_loop_declaring_line) simp_all
  finally show "csqkeys ext f = Inr ks" .
next
  assume "fn_open ext f = Inr lines \<and> (\<forall>l \<in> set lines. \<not> prefix ''##INFO=<ID=CSQ'' l)"
  then show "csqkeys ext f = Inr []"
    by (simp add: csqkeys_def bind_err_def csqkeys_loop_absent)
qed


lemma sample_header_lines:
  "fn_open sample_ext sample_gz
     = Inr ([] @ ((''##INFO=<ID=CSQ,Description='' @ [CHR 0x22] @ ''x. '') @ ''Format: ''
                   @ join_with CHR ''|'' [''Allele'', ''Consequence'', ''VARIANT_CLASS'', ''Feature'']
                   @ header_tail)
                 # [''##SAMPLE=<ID=TUMOR,NAME=s1,x'' @ [CHR ''\<newline>''],
                    ''##INDIVIDUAL=<NAME=c1,x'' @ [CHR ''\<newline>''], ''#CHROM''])"
  by code_simp

lemma sample_no_header_lines:
  "fn_open sample_ext \<lparr>path = ''plain.vcf'', content = ''##fileformat=VCFv4.2''\<rparr>
     = Inr [''##fileformat=VCFv4.2'']"
  by code_simp

theorem csqkeys_schema_witness:
  "csqkeys sample_ext sample_gz = Inr [''Allele'', ''Consequence'', ''VARIANT_CLASS'', ''Feature'']
   \<and> csqkeys sample_ext \<lparr>path = ''plain.vcf'', content = ''##fileformat=VCFv4.2''\<rparr> = Inr []"
  using csqkeys_schema [of sample_ext sample_gz "[]"
          "''##INFO=<ID=CSQ,Description='' @ [CHR 0x22] @ ''x. ''"
          "[''Allele'', ''Consequence'', ''VARIANT_CLASS'', ''Feature'']"
          "[''##SAMPLE=<ID=TUMOR,NAME=s1,x'' @ [CHR ''\<newline>''],
            ''##INDIVIDUAL=<NAME=c1,x'' @ [CHR ''\<newline>''], ''#CHROM'']"]
        csqkeys_schema [of sample_ext "\<lparr>path = ''plain.vcf'', content = ''##fileformat=VCFv4.2''\<rparr>"
          _ _ _ _ "[''##fileformat=VCFv4.2'']"]
        sample_header_lines sample_no_header_lines
  by simp

section \<open>C9: compressed and uncompressed input\<close>

lemma file_text_gz:
  assumes "suffix ''.gz'' (path gz)" "\<not> suffix ''.gz'' (path plain)"
    and "gunzip ext (content gz) = Inr (content plain)"
  shows "file_text ext gz = file_text ext plain"
  using assms by (simp add: file_text_def)

text \<open>
  Claim C9, as amended. Let one file have a path ending in \<open>.gz\<close> and the other not,
  let the text that \<open>gzip\<close> reads from the first be the content of the second, and let
  \<open>pd.read_csv\<close>, which infers the compression from the path by its own rule, decode
  the same text from both files. Then \<open>read_process_vcf\<close> with the same remaining
  arguments returns the same result for both: the same table and the same case
  identifiers, or the same exception.
\<close>

theorem read_process_vcf_gz:
  assumes "suffix ''.gz'' (path gz)" "\<not> suffix ''.gz'' (path plain)"
    and "gunzip ext (content gz) = Inr (content plain)"
    and "pd_text ext gz = pd_text ext plain"
  shows "read_process_vcf ext gz variant variant_class id_list return_case_id
           = read_process_vcf ext plain variant variant_class id_list return_case_id"
proof -
  have t: "file_text ext gz = file_text ext plain" using assms(1-3) by (rule file_text_gz)
  then have o: "fn_open ext gz = fn_open ext plain" by (simp add: fn_open_def)
  have h: "rows2skip ext gz = rows2skip ext plain" "csqkeys ext gz = csqkeys ext plain"
       "case_id ext gz = case_id ext plain"
    by (simp_all add: rows2skip_def csqkeys_def case_id_def o)
  have r: "pd_read_csv ext gz = pd_read_csv ext plain"
    by (rule ext) (simp add: pd_read_csv_def assms(4))
  have v: "vcf_filtered ext gz variant variant_class = vcf_filtered ext plain variant variant_class"
    by (simp add: vcf_filtered_def h r)
  have w: "with_case_id ext gz return_case_id = with_case_id ext plain return_case_id"
    by (rule ext) (simp add: with_case_id_def h)
  show ?thesis
    by (simp only: read_process_vcf_def v w)
qed

theorem read_process_vcf_gz_witness:
  "read_process_vcf sample_ext sample_gz ''missense_variant'' ''SNP'' [''T1''] True
     = read_process_vcf sample_ext sample_plain ''missense_variant'' ''SNP'' [''T1''] True"
  using read_process_vcf_gz [of sample_gz sample_plain sample_ext]
  by (simp add: sample_gz_def sample_plain_def sample_ext_def suffix_to_prefix)

text \<open>
  The claim as stated fails when pandas and \<open>fn_open\<close> disagree on the compression: an
  uncompressed file whose path ends in \<open>.bz2\<close> is opened as text by \<open>rows2skip\<close> and
  \<open>csqkeys\<close>, but \<open>pd.read_csv\<close> takes it for a bzip2 stream and raises, while the
  gzip file with the same text gives a table.
\<close>

theorem plain_file_named_bz2_counterexample:
  "suffix ''.gz'' (path sample_gz) \<and> \<not> suffix ''.gz'' (path sample_bz2_name)
   \<and> gunzip sample_ext (content sample_gz) = Inr (content sample_bz2_name)
   \<and> read_process_vcf sample_ext sample_gz ''missense_variant'' ''SNP'' [] False
       = Inr (sample_vcf_passthrough, None)
   \<and> read_process_vcf sample_ext sample_bz2_name ''missense_variant'' ''SNP'' [] False
       = Inl ReaderError"
  by code_simp

section \<open>The pipelines row by row\<close>

lemma bind_err_Inr: "bind_err m f = Inr y \<Longrightarrow> \<exists>x. m = Inr x \<and> f x = Inr y"
  by (cases m) (simp_all add: bind_err_def)

lemma col_pos_less: "col_pos c cs = Some i \<Longrightarrow> i < length cs"
  by (induction cs arbitrary: i) (auto split: if_splits)

lemma cell_step_compose:
  assumes "cell_step i f r r1" "cell_step i g r1 r2"
  shows "cell_step i (\<lambda>x. bind_err (f x) g) r r2"
proof -
  from assms(1) obtain y where y: "i < length r" "f (cell_at r i) = Inr y" "r1 = r[i := y]"
    by (auto simp: cell_step_def split: sum.splits)
  then have "cell_at r1 i = y" by (simp add: cell_at_def)
  with assms(2) obtain z where z: "g y = Inr z" "r2 = r1[i := z]"
    by (auto simp: cell_step_def split: sum.splits)
  with y show ?thesis by (simp add: cell_step_def bind_err_def)
qed

lemma cell_step_length: "cell_step i f r r' \<Longrightarrow> length r' = length r"
  by (auto simp: cell_step_def split: sum.splits)

lemma apply_col_step:
  assumes pos: "col_pos c (cols df) = Some i"
    and wf: "wf_frame df"
    and app: "apply_col df c c f = Inr df'"
  shows "cols df' = cols df \<and> wf_frame df' \<and> list_all2 (cell_step i f) (rws df) (rws df')"
proof -
  let ?series = "map (\<lambda>r. cell_at r i) (rws df)"
  from pos have g: "get_col df c = Inr ?series" by (simp add: get_col_def)
  with app obtain vals where vals: "map_err f ?series = Inr vals"
    and df': "df' = set_col df c vals"
    by (auto simp: apply_col_def bind_err_def split: sum.splits)
  from map_err_Inr_nth[OF vals] have len: "length vals = length (rws df)"
    and each: "\<forall>n < length (rws df). f (cell_at (rws df ! n) i) = Inr (vals ! n)"
    by simp_all
  from df' pos have rows: "rws df' = map (\<lambda>(r, v). r[i := v]) (zip (rws df) vals)"
    and cols: "cols df' = cols df"
    by (simp_all add: set_col_def)
  from pos have i: "i < length (cols df)" by (rule col_pos_less)
  have inrow: "i < length r" if "r \<in> set (rws df)" for r
    using wf that i by (simp add: wf_frame_def list_all_iff)
  have steps: "list_all2 (cell_step i f) (rws df) (rws df')"
    unfolding list_all2_conv_all_nth
  proof (intro conjI allI impI)
    show "length (rws df) = length (rws df')" using rows len by simp
    fix n assume n: "n < length (rws df)"
    with inrow have "i < length (rws df ! n)" by simp
    moreover from n each have "f (cell_at (rws df ! n) i) = Inr (vals ! n)" by simp
    moreover from n len rows have "rws df' ! n = (rws df ! n)[i := vals ! n]" by simp
    ultimately show "cell_step i f (rws df ! n) (rws df' ! n)" by (simp add: cell_step_def)
  qed
  have "wf_frame df'"
    unfolding wf_frame_def list_all_iff
  proof
    fix r' assume "r' \<in> set (rws df')"
    then obtain n where n: "n < length (rws df')" "r' = rws df' ! n" by (auto simp: in_set_conv_nth)
    with steps have "cell_step i f (rws df ! n) r'" "n < length (rws df)"
      by (auto simp: list_all2_conv_all_nth)
    then have "length r' = length (rws df ! n)" "rws df ! n \<in> set (rws df)"
      by (auto dest: cell_step_length)
    with wf cols show "length r' = length (cols df')" by (simp add: wf_frame_def list_all_iff)
  qed
  with cols steps show ?thesis by simp
qed

lemma list_all2_steps:
  assumes "list_all2 (cell_step i f) xs ys" "list_all2 (cell_step i g) ys zs"
  shows "list_all2 (cell_step i (\<lambda>x. bind_err (f x) g)) xs zs"
proof -
  from assms have len: "length xs = length ys" "length ys = length zs"
    by (auto dest: list_all2_lengthD)
  show ?thesis
    unfolding list_all2_conv_all_nth
  proof (intro conjI allI impI)
    show "length xs = length zs" using len by simp
    fix n assume n: "n < length xs"
    with assms(1) have 1: "cell_step i f (xs ! n) (ys ! n)" by (simp add: list_all2_conv_all_nth)
    from n len assms(2) have 2: "cell_step i g (ys ! n) (zs ! n)" by (simp add: list_all2_conv_all_nth)
    from 1 2 show "cell_step i (\<lambda>x. bind_err (f x) g) (xs ! n) (zs ! n)"
      by (rule cell_step_compose)
  qed
qed


lemma apply_col_pos: "apply_col df c c f = Inr df' \<Longrightarrow> \<exists>i. col_pos c (cols df) = Some i"
  by (auto simp: apply_col_def get_col_def bind_err_def split: option.splits)

lemma select_rows_frame:
  "cols (select_rows df keep) = cols df \<and> (wf_frame df \<longrightarrow> wf_frame (select_rows df keep))"
proof -
  have "set (rws (select_rows df keep)) \<subseteq> set (rws df)"
    by (auto simp: select_rows_def dest: set_zip_leftD)
  moreover have "cols (select_rows df keep) = cols df" by (simp add: select_rows_def)
  ultimately show ?thesis unfolding wf_frame_def list_all_iff by auto
qed

lemma vcf_table_filter_frame:
  assumes "vcf_table_filter ext df variant = Inr tf"
  shows "cols tf = cols df \<and> (wf_frame df \<longrightarrow> wf_frame tf)"
proof -
  from assms obtain keep where "tf = select_rows df keep"
    by (auto simp: vcf_table_filter_def dest!: bind_err_Inr)
  then show ?thesis using select_rows_frame[of df keep] by simp
qed

lemma rename_col_frame: "wf_frame df \<Longrightarrow> wf_frame (rename_col df old new)"
  by (simp add: rename_col_def wf_frame_def)

lemma vcf_filtered_rows:
  assumes reads: "rows2skip ext f = Inr n" "csqkeys ext f = Inr keys"
      "pd_read_csv ext f n = Inr df0"
    and wf: "wf_frame df0"
    and res: "vcf_filtered ext f variant variant_class = Inr out"
  shows "\<exists>tf i. vcf_table_filter ext (rename_col df0 ''#CHROM'' ''CHROM'') variant = Inr tf
           \<and> cols out = cols (rename_col df0 ''#CHROM'' ''CHROM'')
           \<and> col_pos ''INFO'' (cols out) = Some i
           \<and> list_all2 (cell_step i (vcf_cell keys variant variant_class)) (rws tf) (rws out)"
proof -
  let ?upd = "on_info (\<lambda>x. bind_err (update_value x ''CSQ'' keys) (\<lambda>d. Inr (CInfo d)))"
  let ?flt = "on_info (\<lambda>x. bind_err (filter_variants x variant variant_class) (\<lambda>d. Inr (CInfo d)))"
  from res reads obtain tf d1 d2 d3 where
    tf: "vcf_table_filter ext (rename_col df0 ''#CHROM'' ''CHROM'') variant = Inr tf"
    and a1: "apply_col tf ''INFO'' ''INFO'' info_add_nan = Inr d1"
    and a2: "apply_col d1 ''INFO'' ''INFO'' info_to_dict = Inr d2"
    and a3: "apply_col d2 ''INFO'' ''INFO'' ?upd = Inr d3"
    and a4: "apply_col d3 ''INFO'' ''INFO'' ?flt = Inr out"
    unfolding vcf_filtered_def by (auto simp: bind_err_def split: sum.splits)
  from vcf_table_filter_frame[OF tf] wf
  have c0: "cols tf = cols (rename_col df0 ''#CHROM'' ''CHROM'')" and w0: "wf_frame tf"
    by (simp_all add: rename_col_frame)
  from apply_col_pos[OF a1] obtain i where i: "col_pos ''INFO'' (cols tf) = Some i" by blast
  from apply_col_step[OF i w0 a1]
  have s1: "cols d1 = cols tf" "wf_frame d1" "list_all2 (cell_step i info_add_nan) (rws tf) (rws d1)"
    by simp_all
  from i s1(1) have i1: "col_pos ''INFO'' (cols d1) = Some i" by simp
  from apply_col_step[OF i1 s1(2) a2]
  have s2: "cols d2 = cols d1" "wf_frame d2" "list_all2 (cell_step i info_to_dict) (rws d1) (rws d2)"
    by simp_all
  from i1 s2(1) have i2: "col_pos ''INFO'' (cols d2) = Some i" by simp
  from apply_col_step[OF i2 s2(2) a3]
  have s3: "cols d3 = cols d2" "wf_frame d3" "list_all2 (cell_step i ?upd) (rws d2) (rws d3)"
    by simp_all
  from i2 s3(1) have i3: "col_pos ''INFO'' (cols d3) = Some i" by simp
  from apply_col_step[OF i3 s3(2) a4]
  have s4: "cols out = cols d3" "list_all2 (cell_step i ?flt) (rws d3) (rws out)"
    by simp_all
  have "list_all2 (cell_step i (vcf_cell keys variant variant_class)) (rws tf) (rws out)"
    using list_all2_steps[OF list_all2_steps[OF list_all2_steps[OF s1(3) s2(3)] s3(3)] s4(2)]
    by (simp add: vcf_cell_def[abs_def])
  moreover have "cols out = cols tf" using s1(1) s2(1) s3(1) s4(1) by simp
  ultimately show ?thesis using tf c0 i by auto
qed

lemma dropna_rows:
  assumes "dropna df c = Inr out"
  shows "cols out = cols df
         \<and> (\<exists>i. col_pos c (cols df) = Some i \<and> rws out = filter (\<lambda>r. cell_at r i \<noteq> CNaN) (rws df))"
  using assms by (auto simp: dropna_def split: option.splits)

lemma maf_filtered_rows:
  assumes reads: "pd_read_csv_comment ext f = Inr df0"
    and wf: "wf_frame df0"
    and res: "maf_filtered ext f consequence = Inr out"
  shows "cols out = cols df0
         \<and> (\<exists>i mid. col_pos ''all_effects'' (cols out) = Some i
               \<and> list_all2 (cell_step i (maf_cell consequence)) (rws df0) mid
               \<and> rws out = filter (\<lambda>r. cell_at r i \<noteq> CNaN) mid)"
proof -
  let ?flt = "on_subs (\<lambda>x. filter_variants_maf x consequence)"
  from res reads obtain d1 d2 where
    a1: "apply_col df0 ''all_effects'' ''all_effects'' all_effects_decode = Inr d1"
    and a2: "apply_col d1 ''all_effects'' ''all_effects'' ?flt = Inr d2"
    and dn: "dropna d2 ''all_effects'' = Inr out"
    unfolding maf_filtered_def by (auto simp: bind_err_def split: sum.splits)
  from apply_col_pos[OF a1] obtain i where i: "col_pos ''all_effects'' (cols df0) = Some i" by blast
  from apply_col_step[OF i wf a1]
  have s1: "cols d1 = cols df0" "wf_frame d1"
      "list_all2 (cell_step i all_effects_decode) (rws df0) (rws d1)"
    by simp_all
  from i s1(1) have i1: "col_pos ''all_effects'' (cols d1) = Some i" by simp
  from apply_col_step[OF i1 s1(2) a2]
  have s2: "cols d2 = cols d1" "list_all2 (cell_step i ?flt) (rws d1) (rws d2)"
    by simp_all
  have steps: "list_all2 (cell_step i (maf_cell consequence)) (rws df0) (rws d2)"
    using list_all2_steps[OF s1(3) s2(2)] by (simp add: maf_cell_def[abs_def])
  from dropna_rows[OF dn] i s1(1) s2(1)
  have "cols out = cols df0" "rws out = filter (\<lambda>r. cell_at r i \<noteq> CNaN) (rws d2)"
    by simp_all
  with steps i show ?thesis by auto
qed




section \<open>When the pipelines return\<close>

lemma decoded_row_length: "length (decoded_row i f r) = length r"
  by (simp add: decoded_row_def split: sum.splits)

lemma decoded_row_twice:
  assumes "i < length r" "bind_err (F (cell_at r i)) g = Inr y"
  shows "g (cell_at (decoded_row i F r) i) = Inr y"
    and "decoded_row i g (decoded_row i F r) = decoded_row i (\<lambda>x. bind_err (F x) g) r"
proof -
  from assms(2) obtain y1 where y1: "F (cell_at r i) = Inr y1" "g y1 = Inr y"
    by (auto dest: bind_err_Inr)
  with assms(1) have c: "cell_at (decoded_row i F r) i = y1"
    by (simp add: decoded_row_def cell_at_def)
  with y1 show "g (cell_at (decoded_row i F r) i) = Inr y" by simp
  from y1 c show "decoded_row i g (decoded_row i F r) = decoded_row i (\<lambda>x. bind_err (F x) g) r"
    by (simp add: decoded_row_def bind_err_def)
qed

lemma zip_with_map: "map (\<lambda>(r, v). h r v) (zip xs (map g xs)) = map (\<lambda>r. h r (g r)) xs"
  by (induction xs) simp_all

lemma apply_col_ok:
  assumes pos: "col_pos c (cols df) = Some i"
    and ok: "\<forall>r \<in> set (rws df). \<exists>y. f (cell_at r i) = Inr y"
  shows "apply_col df c c f = Inr (df\<lparr>rws := map (decoded_row i f) (rws df)\<rparr>)"
proof -
  let ?series = "map (\<lambda>r. cell_at r i) (rws df)"
  from pos have g: "get_col df c = Inr ?series" by (simp add: get_col_def)
  from ok have "\<forall>x \<in> set ?series. \<exists>y. f x = Inr y" by auto
  then have m: "map_err f ?series = Inr (map (\<lambda>x. projr (f x)) ?series)" by (rule map_err_projr)
  have "map (\<lambda>(r, v). r[i := v]) (zip (rws df) (map (\<lambda>r. projr (f (cell_at r i))) (rws df)))
          = map (\<lambda>r. r[i := projr (f (cell_at r i))]) (rws df)"
    by (rule zip_with_map)
  also have "\<dots> = map (decoded_row i f) (rws df)"
  proof (rule map_cong[OF refl])
    fix r assume "r \<in> set (rws df)"
    with ok obtain y where "f (cell_at r i) = Inr y" by blast
    then show "r[i := projr (f (cell_at r i))] = decoded_row i f r" by (simp add: decoded_row_def)
  qed
  finally have "set_col df c (map (\<lambda>x. projr (f x)) ?series)
      = df\<lparr>rws := map (decoded_row i f) (rws df)\<rparr>"
    using pos by (simp add: set_col_def comp_def)
  with g m show ?thesis by (simp add: apply_col_def bind_err_def)
qed

lemma apply_col_after:
  assumes pos: "col_pos c (cols df) = Some i"
    and wf: "wf_frame df"
    and ok: "\<forall>r \<in> set (rws df). \<exists>y. bind_err (F (cell_at r i)) g = Inr y"
  shows "apply_col (df\<lparr>rws := map (decoded_row i F) (rws df)\<rparr>) c c g
           = Inr (df\<lparr>rws := map (decoded_row i (\<lambda>x. bind_err (F x) g)) (rws df)\<rparr>)"
proof -
  let ?d1 = "df\<lparr>rws := map (decoded_row i F) (rws df)\<rparr>"
  from pos have i: "i < length (cols df)" by (rule col_pos_less)
  have inrow: "i < length r" if "r \<in> set (rws df)" for r
    using wf that i by (simp add: wf_frame_def list_all_iff)
  have pos1: "col_pos c (cols ?d1) = Some i" using pos by simp
  have ok1: "\<forall>r' \<in> set (rws ?d1). \<exists>y. g (cell_at r' i) = Inr y"
  proof
    fix r' assume "r' \<in> set (rws ?d1)"
    then obtain r where r: "r \<in> set (rws df)" "r' = decoded_row i F r" by auto
    with ok obtain y where "bind_err (F (cell_at r i)) g = Inr y" by blast
    then have "g (cell_at (decoded_row i F r) i) = Inr y"
      using inrow[OF r(1)] decoded_row_twice(1)[of i r F g y] by blast
    with r(2) show "\<exists>y. g (cell_at r' i) = Inr y" by blast
  qed
  have "map (decoded_row i g) (map (decoded_row i F) (rws df))
          = map (decoded_row i (\<lambda>x. bind_err (F x) g)) (rws df)"
    unfolding map_map comp_def
  proof (rule map_cong[OF refl])
    fix r assume r: "r \<in> set (rws df)"
    with ok obtain y where "bind_err (F (cell_at r i)) g = Inr y" by blast
    then show "decoded_row i g (decoded_row i F r) = decoded_row i (\<lambda>x. bind_err (F x) g) r"
      using inrow[OF r] decoded_row_twice(2)[of i r F g y] by blast
  qed
  with apply_col_ok[OF pos1 ok1] show ?thesis by simp
qed


lemma bind_err_Inr_eq: "bind_err (Inr x) f = f x"
  by (simp add: bind_err_def)

lemma mask_filter:
  "map fst (filter snd (zip xs (map (\<lambda>(a, b). a = v \<and> b) (zip (map f xs) (map g xs)))))
     = filter (\<lambda>x. f x = v \<and> g x) xs"
  by (induction xs) simp_all

lemma vcf_table_filter_rows:
  assumes "col_pos ''FILTER'' (cols df) = Some fi" "col_pos ''INFO'' (cols df) = Some i"
    and "rws df = [] \<or> list_ex is_str (map (\<lambda>r. cell_at r i) (rws df))"
  shows "vcf_table_filter ext df variant
           = Inr (df\<lparr>rws := filter (keep_row ext variant fi i) (rws df)\<rparr>)"
proof -
  let ?flt = "map (\<lambda>r. cell_at r fi) (rws df)"
  let ?info = "map (\<lambda>r. cell_at r i) (rws df)"
  from assms(1,2) have g: "get_col df ''FILTER'' = Inr ?flt" "get_col df ''INFO'' = Inr ?info"
    by (simp_all add: get_col_def)
  from assms(3) have c: "info_str_contains ext variant ?info
      = Inr (map (\<lambda>r. info_contains ext variant (cell_at r i)) (rws df))"
    by (auto simp: info_str_contains_def comp_def)
  have "select_rows df (map (\<lambda>(a, b). a = CStr ''PASS'' \<and> b)
            (zip ?flt (map (\<lambda>r. info_contains ext variant (cell_at r i)) (rws df))))
          = df\<lparr>rws := filter (keep_row ext variant fi i) (rws df)\<rparr>"
    unfolding select_rows_def keep_row_def by (simp only: mask_filter)
  with g c show ?thesis by (simp add: vcf_table_filter_def bind_err_def)
qed

lemma vcf_cell_stages:
  assumes "vcf_cell keys variant variant_class x = Inr y"
  shows "\<exists>y1. info_add_nan x = Inr y1"
    and "\<exists>y2. bind_err (info_add_nan x) info_to_dict = Inr y2"
    and "\<exists>y3. bind_err (bind_err (info_add_nan x) info_to_dict)
            (on_info (\<lambda>x. bind_err (update_value x ''CSQ'' keys) (\<lambda>d. Inr (CInfo d)))) = Inr y3"
  using assms unfolding vcf_cell_def by (auto simp: bind_err_def split: sum.splits)

lemma vcf_filtered_returns:
  assumes reads: "rows2skip ext f = Inr n" "csqkeys ext f = Inr keys"
      "pd_read_csv ext f n = Inr df0"
    and wf: "wf_frame df0"
    and fpos: "col_pos ''FILTER'' (cols (rename_col df0 ''#CHROM'' ''CHROM'')) = Some fi"
    and ipos: "col_pos ''INFO'' (cols (rename_col df0 ''#CHROM'' ''CHROM'')) = Some i"
    and strs: "rws df0 = [] \<or> list_ex is_str (map (\<lambda>r. cell_at r i) (rws df0))"
    and ok: "\<forall>r \<in> set (filter (keep_row ext variant fi i) (rws df0)).
               \<exists>y. vcf_cell keys variant variant_class (cell_at r i) = Inr y"
  shows "vcf_filtered ext f variant variant_class
           = Inr \<lparr>cols = cols (rename_col df0 ''#CHROM'' ''CHROM''),
                  rws = map (decoded_row i (vcf_cell keys variant variant_class))
                          (filter (keep_row ext variant fi i) (rws df0))\<rparr>"
proof -
  let ?df = "rename_col df0 ''#CHROM'' ''CHROM''"
  let ?kept = "filter (keep_row ext variant fi i) (rws df0)"
  let ?tf = "?df\<lparr>rws := ?kept\<rparr>"
  let ?upd = "on_info (\<lambda>x. bind_err (update_value x ''CSQ'' keys) (\<lambda>d. Inr (CInfo d)))"
  let ?flt = "on_info (\<lambda>x. bind_err (filter_variants x variant variant_class) (\<lambda>d. Inr (CInfo d)))"
  let ?f2 = "\<lambda>x. bind_err (info_add_nan x) info_to_dict"
  let ?f3 = "\<lambda>x. bind_err (bind_err (info_add_nan x) info_to_dict) ?upd"
  have rows: "rws ?df = rws df0" by (simp add: rename_col_def)
  from strs have "rws ?df = [] \<or> list_ex is_str (map (\<lambda>r. cell_at r i) (rws ?df))"
    by (simp add: rows)
  from vcf_table_filter_rows[OF fpos ipos this, of ext variant]
  have tf: "vcf_table_filter ext ?df variant = Inr ?tf" by (simp add: rows)
  have wtf: "wf_frame ?tf"
    using wf by (auto simp: wf_frame_def list_all_iff rename_col_def)
  have ptf: "col_pos ''INFO'' (cols ?tf) = Some i" using ipos by simp
  have ok1: "\<forall>r \<in> set (rws ?tf). \<exists>y. info_add_nan (cell_at r i) = Inr y"
    and ok2: "\<forall>r \<in> set (rws ?tf). \<exists>y. bind_err (info_add_nan (cell_at r i)) info_to_dict = Inr y"
    and ok3: "\<forall>r \<in> set (rws ?tf). \<exists>y. bind_err (?f2 (cell_at r i)) ?upd = Inr y"
    and ok4: "\<forall>r \<in> set (rws ?tf). \<exists>y. bind_err (?f3 (cell_at r i)) ?flt = Inr y"
    using ok vcf_cell_stages[of keys variant variant_class] by (auto simp: vcf_cell_def)
  have a1: "apply_col ?tf ''INFO'' ''INFO'' info_add_nan
      = Inr (?tf\<lparr>rws := map (decoded_row i info_add_nan) (rws ?tf)\<rparr>)"
    using ptf ok1 by (rule apply_col_ok)
  have a2: "apply_col (?tf\<lparr>rws := map (decoded_row i info_add_nan) (rws ?tf)\<rparr>) ''INFO'' ''INFO''
        info_to_dict = Inr (?tf\<lparr>rws := map (decoded_row i ?f2) (rws ?tf)\<rparr>)"
    using ptf wtf ok2 by (rule apply_col_after)
  have a3: "apply_col (?tf\<lparr>rws := map (decoded_row i ?f2) (rws ?tf)\<rparr>) ''INFO'' ''INFO'' ?upd
      = Inr (?tf\<lparr>rws := map (decoded_row i ?f3) (rws ?tf)\<rparr>)"
    using ptf wtf ok3 by (rule apply_col_after)
  have a4: "apply_col (?tf\<lparr>rws := map (decoded_row i ?f3) (rws ?tf)\<rparr>) ''INFO'' ''INFO'' ?flt
      = Inr (?tf\<lparr>rws := map (decoded_row i (\<lambda>x. bind_err (?f3 x) ?flt)) (rws ?tf)\<rparr>)"
    using ptf wtf ok4 by (rule apply_col_after)
  have "vcf_filtered ext f variant variant_class
      = Inr (?tf\<lparr>rws := map (decoded_row i (\<lambda>x. bind_err (?f3 x) ?flt)) (rws ?tf)\<rparr>)"
    by (simp only: vcf_filtered_def reads tf a1 a2 a3 a4 bind_err_Inr_eq)
  then show ?thesis by (simp add: vcf_cell_def[abs_def] rename_col_def)
qed


lemma cell_ok_iff: "cell_ok i f r = (\<exists>y. f (cell_at r i) = Inr y)"
  by (simp add: cell_ok_def split: sum.splits)

lemma maf_filtered_returns:
  assumes reads: "pd_read_csv_comment ext g = Inr mf0"
    and wf: "wf_frame mf0"
    and pos: "col_pos ''all_effects'' (cols mf0) = Some j"
    and ok: "\<forall>r \<in> set (rws mf0). \<exists>y. maf_cell consequence (cell_at r j) = Inr y"
  shows "maf_filtered ext g consequence
           = Inr \<lparr>cols = cols mf0,
                  rws = filter (\<lambda>r. cell_at r j \<noteq> CNaN)
                          (map (decoded_row j (maf_cell consequence)) (rws mf0))\<rparr>"
proof -
  let ?flt = "on_subs (\<lambda>x. filter_variants_maf x consequence)"
  let ?d2 = "mf0\<lparr>rws := map (decoded_row j (\<lambda>x. bind_err (all_effects_decode x) ?flt)) (rws mf0)\<rparr>"
  from ok have ok2: "\<forall>r \<in> set (rws mf0). \<exists>y. bind_err (all_effects_decode (cell_at r j)) ?flt = Inr y"
    by (simp add: maf_cell_def)
  then have ok1: "\<forall>r \<in> set (rws mf0). \<exists>y. all_effects_decode (cell_at r j) = Inr y"
    by (meson bind_err_Inr)
  have a1: "apply_col mf0 ''all_effects'' ''all_effects'' all_effects_decode
      = Inr (mf0\<lparr>rws := map (decoded_row j all_effects_decode) (rws mf0)\<rparr>)"
    using pos ok1 by (rule apply_col_ok)
  have a2: "apply_col (mf0\<lparr>rws := map (decoded_row j all_effects_decode) (rws mf0)\<rparr>)
        ''all_effects'' ''all_effects'' ?flt = Inr ?d2"
    using pos wf ok2 by (rule apply_col_after)
  have dn: "dropna ?d2 ''all_effects''
      = Inr (?d2\<lparr>rws := filter (\<lambda>r. cell_at r j \<noteq> CNaN) (rws ?d2)\<rparr>)"
    using pos by (simp add: dropna_def)
  have "maf_filtered ext g consequence
      = Inr (?d2\<lparr>rws := filter (\<lambda>r. cell_at r j \<noteq> CNaN) (rws ?d2)\<rparr>)"
    by (simp only: maf_filtered_def reads a1 a2 dn bind_err_Inr_eq)
  then show ?thesis by (simp add: maf_cell_def[abs_def])
qed

lemma list_all2_left: "list_all2 P xs ys \<Longrightarrow> x \<in> set xs \<Longrightarrow> \<exists>y. P x y"
  by (auto simp: list_all2_conv_all_nth in_set_conv_nth)

lemma vcf_filtered_fails:
  assumes reads: "rows2skip ext f = Inr n" "csqkeys ext f = Inr keys"
      "pd_read_csv ext f n = Inr df0"
    and wf: "wf_frame df0"
    and fpos: "col_pos ''FILTER'' (cols (rename_col df0 ''#CHROM'' ''CHROM'')) = Some fi"
    and ipos: "col_pos ''INFO'' (cols (rename_col df0 ''#CHROM'' ''CHROM'')) = Some i"
    and strs: "rws df0 = [] \<or> list_ex is_str (map (\<lambda>r. cell_at r i) (rws df0))"
    and bad: "\<not> list_all (cell_ok i (vcf_cell keys variant variant_class))
                 (filter (keep_row ext variant fi i) (rws df0))"
  shows "\<exists>e. vcf_filtered ext f variant variant_class = Inl e"
proof (cases "vcf_filtered ext f variant variant_class")
  case (Inl e)
  then show ?thesis by blast
next
  case (Inr out)
  let ?df = "rename_col df0 ''#CHROM'' ''CHROM''"
  have rows: "rws ?df = rws df0" by (simp add: rename_col_def)
  from strs have "rws ?df = [] \<or> list_ex is_str (map (\<lambda>r. cell_at r i) (rws ?df))"
    by (simp add: rows)
  from vcf_table_filter_rows[OF fpos ipos this, of ext variant]
  have tf: "vcf_table_filter ext ?df variant
      = Inr (?df\<lparr>rws := filter (keep_row ext variant fi i) (rws df0)\<rparr>)"
    by (simp add: rows)
  from vcf_filtered_rows[OF reads wf Inr] tf obtain i' where
    i': "col_pos ''INFO'' (cols out) = Some i'" "cols out = cols ?df"
      "list_all2 (cell_step i' (vcf_cell keys variant variant_class))
         (filter (keep_row ext variant fi i) (rws df0)) (rws out)"
    by auto
  with ipos have "i' = i" by simp
  with i'(3) have "\<forall>r \<in> set (filter (keep_row ext variant fi i) (rws df0)).
      \<exists>y. vcf_cell keys variant variant_class (cell_at r i) = Inr y"
    by (auto simp: cell_step_def split: sum.splits dest!: list_all2_left)
  with bad show ?thesis by (simp add: list_all_iff cell_ok_iff)
qed

lemma maf_filtered_fails:
  assumes reads: "pd_read_csv_comment ext g = Inr mf0"
    and wf: "wf_frame mf0"
    and pos: "col_pos ''all_effects'' (cols mf0) = Some j"
    and bad: "\<not> list_all (cell_ok j (maf_cell consequence)) (rws mf0)"
  shows "\<exists>e. maf_filtered ext g consequence = Inl e"
proof (cases "maf_filtered ext g consequence")
  case (Inl e)
  then show ?thesis by blast
next
  case (Inr out)
  from maf_filtered_rows[OF reads wf Inr] obtain j' mid where
    j': "cols out = cols mf0" "col_pos ''all_effects'' (cols out) = Some j'"
      "list_all2 (cell_step j' (maf_cell consequence)) (rws mf0) mid"
    by auto
  with pos have "j' = j" by simp
  with j'(3) have "\<forall>r \<in> set (rws mf0). \<exists>y. maf_cell consequence (cell_at r j) = Inr y"
    by (auto simp: cell_step_def split: sum.splits dest!: list_all2_left)
  with bad show ?thesis by (simp add: list_all_iff cell_ok_iff)
qed


section \<open>The sample file evaluated\<close>

lemma sample_reads:
  "rows2skip sample_ext sample_gz = Inr 3"
  "csqkeys sample_ext sample_gz = Inr [''Allele'', ''Consequence'', ''VARIANT_CLASS'', ''Feature'']"
  "pd_read_csv sample_ext sample_gz 3 = Inr sample_vcf_table"
  "pd_read_csv_comment sample_ext sample_gz = Inr sample_maf_table"
  "wf_frame sample_vcf_table"
  "wf_frame sample_maf_table"
  "col_pos ''FILTER'' (cols (rename_col sample_vcf_table ''#CHROM'' ''CHROM'')) = Some 1"
  "col_pos ''INFO'' (cols (rename_col sample_vcf_table ''#CHROM'' ''CHROM'')) = Some 2"
  "col_pos ''all_effects'' (cols sample_maf_table) = Some 1"
  "list_ex is_str (map (\<lambda>r. cell_at r 2) (rws sample_vcf_table))"
  by code_simp+

lemma sample_rows:
  "list_all (cell_ok 2 (vcf_cell [''Allele'', ''Consequence'', ''VARIANT_CLASS'', ''Feature'']
                          ''missense_variant'' ''SNP''))
     (filter (keep_row sample_ext ''missense_variant'' 1 2) (rws sample_vcf_table))"
  "\<lparr>cols = cols (rename_col sample_vcf_table ''#CHROM'' ''CHROM''),
    rws = map (decoded_row 2 (vcf_cell [''Allele'', ''Consequence'', ''VARIANT_CLASS'', ''Feature'']
                                ''missense_variant'' ''SNP''))
            (filter (keep_row sample_ext ''missense_variant'' 1 2) (rws sample_vcf_table))\<rparr>
     = sample_vcf_passthrough"
  "list_all (cell_ok 1 (maf_cell ''missense_variant'')) (rws sample_maf_table)"
  "\<lparr>cols = cols sample_maf_table,
    rws = filter (\<lambda>r. cell_at r 1 \<noteq> CNaN)
            (map (decoded_row 1 (maf_cell ''missense_variant'')) (rws sample_maf_table))\<rparr>
     = sample_maf_passthrough"
  by code_simp+

section \<open>C8: an empty identifier list\<close>

text \<open>
  Claim C8. Let the reader give a well-formed table. With an empty \<open>id_list\<close> both
  pipelines skip resolution and expansion and return the variant-filtered table.
  VCF: let the table have the columns FILTER and INFO, the INFO column holding a string
  unless the table has no row. If the INFO cell of every row that passes the table filter
  of line 283 decodes, \<open>read_process_vcf\<close> returns the table whose columns are those
  read (with \<open>#CHROM\<close> renamed) and whose rows are the rows that pass the filter, in
  their order, each unchanged except for its INFO cell, which holds the decoded and
  filtered dictionary; with \<open>return_case_id\<close> the pair of \<open>case_id\<close> comes with it.
  Otherwise it raises. MAF: let the table have the column \<open>all_effects\<close>. If that cell
  decodes in every row, \<open>read_process_maf\<close> returns the table with the columns read,
  whose rows are the rows read, each unchanged except for its \<open>all_effects\<close> cell,
  which holds the decoded and filtered list, without the rows where that cell is NaN.
  Otherwise it raises. In both results no column is added and no further row is dropped.
\<close>

theorem passthrough_without_ids:
  "(rows2skip ext f = Inr n \<and> csqkeys ext f = Inr keys \<and> pd_read_csv ext f n = Inr df0
      \<and> wf_frame df0
      \<and> col_pos ''FILTER'' (cols (rename_col df0 ''#CHROM'' ''CHROM'')) = Some fi
      \<and> col_pos ''INFO'' (cols (rename_col df0 ''#CHROM'' ''CHROM'')) = Some i
      \<and> (rws df0 = [] \<or> list_ex is_str (map (\<lambda>r. cell_at r i) (rws df0)))
    \<longrightarrow>
      (list_all (cell_ok i (vcf_cell keys variant variant_class))
         (filter (keep_row ext variant fi i) (rws df0))
       \<longrightarrow> read_process_vcf ext f variant variant_class [] return_case_id
           = with_case_id ext f return_case_id
               \<lparr>cols = cols (rename_col df0 ''#CHROM'' ''CHROM''),
                rws = map (decoded_row i (vcf_cell keys variant variant_class))
                        (filter (keep_row ext variant fi i) (rws df0))\<rparr>)
      \<and> (\<not> list_all (cell_ok i (vcf_cell keys variant variant_class))
             (filter (keep_row ext variant fi i) (rws df0))
       \<longrightarrow> (\<exists>e. read_process_vcf ext f variant variant_class [] return_case_id = Inl e)))
   \<and> (pd_read_csv_comment ext g = Inr mf0 \<and> wf_frame mf0
      \<and> col_pos ''all_effects'' (cols mf0) = Some j
    \<longrightarrow>
      (list_all (cell_ok j (maf_cell consequence)) (rws mf0)
       \<longrightarrow> read_process_maf ext g variant consequence variant_class []
           = Inr \<lparr>cols = cols mf0,
                  rws = filter (\<lambda>r. cell_at r j \<noteq> CNaN)
                          (map (decoded_row j (maf_cell consequence)) (rws mf0))\<rparr>)
      \<and> (\<not> list_all (cell_ok j (maf_cell consequence)) (rws mf0)
       \<longrightarrow> (\<exists>e. read_process_maf ext g variant consequence variant_class [] = Inl e)))"
proof (intro conjI impI)
  assume a: "rows2skip ext f = Inr n \<and> csqkeys ext f = Inr keys \<and> pd_read_csv ext f n = Inr df0
      \<and> wf_frame df0
      \<and> col_pos ''FILTER'' (cols (rename_col df0 ''#CHROM'' ''CHROM'')) = Some fi
      \<and> col_pos ''INFO'' (cols (rename_col df0 ''#CHROM'' ''CHROM'')) = Some i
      \<and> (rws df0 = [] \<or> list_ex is_str (map (\<lambda>r. cell_at r i) (rws df0)))"
  {
    assume "list_all (cell_ok i (vcf_cell keys variant variant_class))
         (filter (keep_row ext variant fi i) (rws df0))"
    then have "\<forall>r \<in> set (filter (keep_row ext variant fi i) (rws df0)).
        \<exists>y. vcf_cell keys variant variant_class (cell_at r i) = Inr y"
      by (simp add: list_all_iff cell_ok_iff)
    with a have "vcf_filtered ext f variant variant_class
        = Inr \<lparr>cols = cols (rename_col df0 ''#CHROM'' ''CHROM''),
               rws = map (decoded_row i (vcf_cell keys variant variant_class))
                       (filter (keep_row ext variant fi i) (rws df0))\<rparr>"
      using vcf_filtered_returns[of ext f n keys df0 fi i variant variant_class] by blast
    then show "read_process_vcf ext f variant variant_class [] return_case_id
           = with_case_id ext f return_case_id
               \<lparr>cols = cols (rename_col df0 ''#CHROM'' ''CHROM''),
                rws = map (decoded_row i (vcf_cell keys variant variant_class))
                        (filter (keep_row ext variant fi i) (rws df0))\<rparr>"
      by (simp add: read_process_vcf_def bind_err_Inr_eq)
  }
  {
    assume "\<not> list_all (cell_ok i (vcf_cell keys variant variant_class))
             (filter (keep_row ext variant fi i) (rws df0))"
    with a obtain e where "vcf_filtered ext f variant variant_class = Inl e"
      using vcf_filtered_fails[of ext f n keys df0 fi i variant variant_class] by blast
    then show "\<exists>e. read_process_vcf ext f variant variant_class [] return_case_id = Inl e"
      by (simp add: read_process_vcf_def bind_err_def)
  }
next
  assume b: "pd_read_csv_comment ext g = Inr mf0 \<and> wf_frame mf0
      \<and> col_pos ''all_effects'' (cols mf0) = Some j"
  {
    assume "list_all (cell_ok j (maf_cell consequence)) (rws mf0)"
    then have "\<forall>r \<in> set (rws mf0). \<exists>y. maf_cell consequence (cell_at r j) = Inr y"
      by (simp add: list_all_iff cell_ok_iff)
    with b have "maf_filtered ext g consequence
        = Inr \<lparr>cols = cols mf0,
               rws = filter (\<lambda>r. cell_at r j \<noteq> CNaN)
                       (map (decoded_row j (maf_cell consequence)) (rws mf0))\<rparr>"
      using maf_filtered_returns[of ext g mf0 j consequence] by blast
    then show "read_process_maf ext g variant consequence variant_class []
           = Inr \<lparr>cols = cols mf0,
                  rws = filter (\<lambda>r. cell_at r j \<noteq> CNaN)
                          (map (decoded_row j (maf_cell consequence)) (rws mf0))\<rparr>"
      by (simp add: read_process_maf_def bind_err_Inr_eq)
  }
  {
    assume "\<not> list_all (cell_ok j (maf_cell consequence)) (rws mf0)"
    with b obtain e where "maf_filtered ext g consequence = Inl e"
      using maf_filtered_fails[of ext g mf0 j consequence] by blast
    then show "\<exists>e. read_process_maf ext g variant consequence variant_class [] = Inl e"
      by (simp add: read_process_maf_def bind_err_def)
  }
qed

theorem passthrough_without_ids_witness:
  "read_process_vcf sample_ext sample_gz ''missense_variant'' ''SNP'' [] False
     = Inr (sample_vcf_passthrough, None)
   \<and> read_process_maf sample_ext sample_gz ''missense_variant'' ''missense_variant'' ''SNP'' []
     = Inr sample_maf_passthrough"
  using passthrough_without_ids
          [of sample_ext sample_gz 3 "[''Allele'', ''Consequence'', ''VARIANT_CLASS'', ''Feature'']"
              sample_vcf_table 1 2 "''missense_variant''" "''SNP''" False
              sample_gz sample_maf_table 1 "''missense_variant''"]
        sample_reads sample_rows
  by (simp add: with_case_id_def)


section \<open>C5: an empty filtered sequence\<close>

text \<open>
  The MAF path does what the claim says: \<open>filter_variants_maf\<close> returns NaN for an
  empty filtered sequence and the sequence itself otherwise, and no row of the
  variant-filtered table has NaN in \<open>all_effects\<close>.
\<close>

lemma filter_variants_maf_cases:
  assumes "filter_variants_maf subs variant = Inr x"
  shows "\<exists>kept. filter_err (keep_variant_maf variant) subs = Inr kept
           \<and> (kept = [] \<longrightarrow> x = CNaN) \<and> (kept \<noteq> [] \<longrightarrow> x = CSubs kept)"
  using assms
  by (auto simp: filter_variants_maf_def bind_err_def split: sum.splits if_splits)

lemma maf_filtered_no_nan:
  assumes "maf_filtered ext f consequence = Inr out"
  shows "\<exists>i. col_pos ''all_effects'' (cols out) = Some i
           \<and> (\<forall>r \<in> set (rws out). cell_at r i \<noteq> CNaN)"
proof -
  from assms obtain d where "dropna d ''all_effects'' = Inr out"
    unfolding maf_filtered_def by (auto simp: bind_err_def split: sum.splits)
  from dropna_rows[OF this] show ?thesis by auto
qed

text \<open>
  The VCF path does not: \<open>filter_variants\<close> stores the filtered sequence under CSQ,
  empty or not, and returns the dictionary.
\<close>

lemma filter_variants_list:
  assumes "filter_variants dict_a variant variant_class = Inr d'"
    and "map_of dict_a ''CSQ'' = Some (Subs csq)"
  shows "\<exists>kept. filter_err (keep_variant variant variant_class) csq = Inr kept
           \<and> map_of d' ''CSQ'' = Some (Subs kept)"
  using assms
  by (auto simp: filter_variants_def bind_err_def AList.update_conv' split: sum.splits)

text \<open>
  Claim C5: when variant filtering yields an empty sequence of sub-records, the field is
  marked absent (NaN) and the owning row is dropped. The code does so for MAF and not for
  VCF. On the sample VCF file, with variant class SNP and no identifiers, the second row
  has no qualifying sub-record: \<open>filter_variants\<close> leaves the empty list under CSQ in
  its INFO dictionary, and \<open>read_process_vcf\<close> returns the row. On the sample MAF
  file the second row has no qualifying sub-record either: \<open>filter_variants_maf\<close>
  returns NaN and \<open>read_process_maf\<close> returns the table without that row.
\<close>

theorem vcf_empty_sequence_kept:
  "filter_variants
     [(''DP'', Str ''3''),
      (''CSQ'', Subs [[(''Allele'', ''A''), (''Consequence'', ''missense_variant''),
                       (''VARIANT_CLASS'', ''INS''), (''Feature'', ''T9'')],
                      [(''Allele'', ''A''), (''Consequence'', ''synonymous_variant''),
                       (''VARIANT_CLASS'', ''SNP''), (''Feature'', ''T1'')]])]
     ''missense_variant'' ''SNP''
     = Inr [(''DP'', Str ''3''), (''CSQ'', Subs [])]
   \<and> read_process_vcf sample_ext sample_gz ''missense_variant'' ''SNP'' [] False
     = Inr (\<lparr>cols = [''CHROM'', ''FILTER'', ''INFO''],
             rws = [[CNum 1, CStr ''PASS'',
                     CInfo [(''DP'', Str ''3''), (''IN_PON'', Str ''nan''),
                            (''CSQ'', Subs [[(''Allele'', ''A''), (''Consequence'', ''missense_variant''),
                                             (''VARIANT_CLASS'', ''SNP''), (''Feature'', ''T1'')],
                                            [(''Allele'', ''A''), (''Consequence'', ''missense_variant''),
                                             (''VARIANT_CLASS'', ''SNP''), (''Feature'', ''T2'')]])]],
                    [CNum 1, CStr ''PASS'',
                     CInfo [(''DP'', Str ''3''), (''CSQ'', Subs [])]]]\<rparr>, None)
   \<and> filter_variants_maf
       [[(''Symbol_all_effects'', ''S1''), (''Consequence_all_effects'', ''synonymous_variant''),
         (''HGVSp_Short_all_effects'', ''p.A''), (''Transcript_ID_all_effects'', ''T1'')]]
       ''missense_variant'' = Inr CNaN
   \<and> length (rws sample_maf_table) = 2
   \<and> read_process_maf sample_ext sample_gz ''Missense_Mutation'' ''missense_variant'' ''SNP'' []
     = Inr \<lparr>cols = [''Hugo_Symbol'', ''all_effects''],
            rws = [[CStr ''G1'',
                    CSubs [[(''Symbol_all_effects'', ''S1''),
                            (''Consequence_all_effects'', ''missense_variant''),
                            (''HGVSp_Short_all_effects'', ''p.A''),
                            (''Transcript_ID_all_effects'', ''T1'')],
                           [(''Symbol_all_effects'', ''S3''),
                            (''Consequence_all_effects'', ''missense_variant''),
                            (''HGVSp_Short_all_effects'', ''p.C''),
                            (''Transcript_ID_all_effects'', ''T3'')]]]]\<rparr>"
  by code_simp

end
